theory Spec2Isabelle
  imports
    Main
    "HOL-Library.Char_ord"
    "HOL-Library.List_Lexorder"
    "HOL-Library.Product_Lexorder"
begin

section \<open>Data model (db.py, \<^verbatim>\<open>_create_schema\<close>)\<close>

text \<open>
  Every table is the list of its rows in rowid order. SQL text is a \<^typ>\<open>string\<close>
  (a byte list, compared bytewise as SQLite's BINARY collation does), SQL integers are
  \<^typ>\<open>int\<close>, a nullable column is an \<^typ>\<open>'a option\<close>. Timestamps are kept as Unix
  seconds, the form in which the tables store them; the ISO-8601 parsing and printing of
  \<^verbatim>\<open>iso_to_unix\<close> and \<^verbatim>\<open>unix_to_iso\<close> is not modelled.
\<close>

record repo_row =
  r_id :: int
  r_name_with_owner :: string
  r_description :: "string option"
  r_homepage_url :: "string option"
  r_created_at :: "int option"

record latest_row =
  rl_repo_id :: int
  rl_run_id :: int
  rl_history_start_run_id :: int
  rl_stars :: int
  rl_forks :: int
  rl_watchers :: int
  rl_disk_usage :: "int option"
  rl_updated_at :: "int option"
  rl_pushed_at :: "int option"
  rl_is_archived :: int
  rl_primary_language_id :: "int option"

record hist_row =
  h_repo_id :: int
  h_start_run_id :: int
  h_end_run_id :: int
  h_stars :: int
  h_forks :: int
  h_watchers :: int
  h_disk_usage :: "int option"

text \<open>
  \<^verbatim>\<open>language\<close> and \<^verbatim>\<open>topic\<close> rows are (id, name), \<^verbatim>\<open>fetch_run\<close> rows are
  (id, fetched_at), \<^verbatim>\<open>repo_topic_latest\<close> rows are (repo_id, topic_id).
\<close>

record db =
  repo :: "repo_row list"
  language :: "(int \<times> string) list"
  topic :: "(int \<times> string) list"
  fetch_run :: "(int \<times> int) list"
  repo_latest :: "latest_row list"
  repo_metrics_hist :: "hist_row list"
  repo_topic_latest :: "(int \<times> int) list"

datatype error = KeyError | IntegrityError | RuntimeError | ValueError | OverflowError

text \<open>
  The state of a \<^verbatim>\<open>RepoDB\<close> object: the connection's database, the run id of the
  pass (\<^verbatim>\<open>None\<close> until \<^verbatim>\<open>begin_run\<close>), the two interning caches and the set of
  repo ids already processed in this pass.
\<close>

record engine =
  conn :: db
  run_id :: "int option"
  lang_cache :: "string \<rightharpoonup> int"
  topic_cache :: "string \<rightharpoonup> int"
  processed_repo_ids :: "int set"

subsection \<open>Snapshots\<close>

text \<open>
  A scalar of the decoded JSON payload. \<^verbatim>\<open>databaseId\<close> and \<^verbatim>\<open>nameWithOwner\<close> are
  read from the dictionary as they come (\<^verbatim>\<open>None\<close> of the option: the key is absent).
  The other fields are typed by the upstream schema and are modelled by the value the
  code extracts from them: an absent count is \<^verbatim>\<open>None\<close> (the code's default 0 applies),
  \<^verbatim>\<open>n_watchers\<close> is \<^verbatim>\<open>watchers.totalCount\<close>, \<^verbatim>\<open>n_primaryLanguage\<close> is
  \<^verbatim>\<open>primaryLanguage.name\<close>, \<^verbatim>\<open>n_repositoryTopics\<close> the string topic names of
  \<^verbatim>\<open>repositoryTopics.nodes\<close>, and the three timestamps their Unix seconds.
\<close>

datatype jv = JNull | JBool bool | JInt int | JStr string

record node =
  n_databaseId :: "jv option"
  n_nameWithOwner :: "jv option"
  n_createdAt :: "int option"
  n_description :: "string option"
  n_homepageUrl :: "string option"
  n_stargazerCount :: "int option"
  n_forkCount :: "int option"
  n_watchers :: "int option"
  n_diskUsage :: "int option"
  n_updatedAt :: "int option"
  n_pushedAt :: "int option"
  n_isArchived :: bool
  n_primaryLanguage :: "string option"
  n_repositoryTopics :: "string list"

section \<open>SQLite and Python primitives\<close>

text \<open>Decimal text of an integer, as SQLite's \<^verbatim>\<open>||\<close> and Python's \<^verbatim>\<open>str\<close> print it.\<close>

fun dec_digits :: "nat \<Rightarrow> string" where
  "dec_digits n =
     (if n < 10 then [''0123456789'' ! n]
      else dec_digits (n div 10) @ [''0123456789'' ! (n mod 10)])"

declare dec_digits.simps [simp del]

definition show_int :: "int \<Rightarrow> string" where
  "show_int i = (if i < 0 then CHR ''-'' # dec_digits (nat (- i)) else dec_digits (nat i))"

text \<open>
  A bound parameter compared with or stored into a TEXT column: NULL stays NULL, an
  integer takes its decimal text (Python's \<^verbatim>\<open>bool\<close> is bound as the integer 0 or 1).
\<close>

fun sql_text :: "jv \<Rightarrow> string option" where
  "sql_text JNull = None"
| "sql_text (JBool b) = Some (if b then ''1'' else ''0'')"
| "sql_text (JInt i) = Some (show_int i)"
| "sql_text (JStr s) = Some s"

text \<open>
  The rowid SQLite gives a row inserted without an id into an INTEGER PRIMARY KEY table:
  one more than the largest id present, 1 for an empty table.
\<close>

definition next_rowid :: "int list \<Rightarrow> int" where
  "next_rowid ids = (case ids of [] \<Rightarrow> 1 | i # rest \<Rightarrow> fold max rest i + 1)"

section \<open>Ingestion (db.py, \<^verbatim>\<open>RepoDB\<close>)\<close>

text \<open>
  \<^verbatim>\<open>begin_run\<close>: the run of the pass is created on the first call and reused afterwards.
  \<open>now\<close> is the clock reading \<^verbatim>\<open>datetime.now\<close> would give.
\<close>

definition begin_run :: "int \<Rightarrow> engine \<Rightarrow> int \<times> engine" where
  "begin_run now e =
     (case run_id e of
        Some r \<Rightarrow> (r, e)
      | None \<Rightarrow>
          (let r = next_rowid (map fst (fetch_run (conn e)))
           in (r, e\<lparr>conn := (conn e)\<lparr>fetch_run := fetch_run (conn e) @ [(r, now)]\<rparr>,
                     run_id := Some r\<rparr>)))"

text \<open>\<^verbatim>\<open>INSERT OR IGNORE INTO t(name)\<close> followed by \<^verbatim>\<open>SELECT id FROM t WHERE name = ?\<close>.\<close>

definition insert_or_ignore_name :: "string \<Rightarrow> (int \<times> string) list \<Rightarrow> (int \<times> string) list" where
  "insert_or_ignore_name nm tbl =
     (if list_ex (\<lambda>row. snd row = nm) tbl then tbl else tbl @ [(next_rowid (map fst tbl), nm)])"

definition select_id_by_name :: "string \<Rightarrow> (int \<times> string) list \<Rightarrow> int option" where
  "select_id_by_name nm tbl = map_option fst (find (\<lambda>row. snd row = nm) tbl)"

definition get_or_create_language_id :: "string option \<Rightarrow> engine \<Rightarrow> int option \<times> engine" where
  "get_or_create_language_id name e =
     (case name of
        None \<Rightarrow> (None, e)
      | Some nm \<Rightarrow>
          if nm = [] then (None, e)
          else (case lang_cache e nm of
                  Some i \<Rightarrow> (Some i, e)
                | None \<Rightarrow>
                    (let tbl = insert_or_ignore_name nm (language (conn e));
                         e1 = e\<lparr>conn := (conn e)\<lparr>language := tbl\<rparr>\<rparr>
                     in case select_id_by_name nm tbl of
                          None \<Rightarrow> (None, e1)
                        | Some i \<Rightarrow> (Some i, e1\<lparr>lang_cache := (lang_cache e1)(nm \<mapsto> i)\<rparr>))))"

definition get_or_create_topic_id :: "string \<Rightarrow> engine \<Rightarrow> (error + int) \<times> engine" where
  "get_or_create_topic_id nm e =
     (case topic_cache e nm of
        Some i \<Rightarrow> (Inr i, e)
      | None \<Rightarrow>
          (let tbl = insert_or_ignore_name nm (topic (conn e));
               e1 = e\<lparr>conn := (conn e)\<lparr>topic := tbl\<rparr>\<rparr>
           in case select_id_by_name nm tbl of
                None \<Rightarrow> (Inl RuntimeError, e1)
              | Some i \<Rightarrow> (Inr i, e1\<lparr>topic_cache := (topic_cache e1)(nm \<mapsto> i)\<rparr>)))"

subsection \<open>Phase 1: the fresh snapshots of a batch\<close>

text \<open>
  \<^verbatim>\<open>isinstance(repo_id, int) and repo_id > 0\<close>; a Python \<^verbatim>\<open>bool\<close> is an \<^verbatim>\<open>int\<close>, so
  \<^verbatim>\<open>True\<close> passes as the id 1.
\<close>

fun valid_repo_id :: "jv option \<Rightarrow> int option" where
  "valid_repo_id (Some (JInt i)) = (if i \<le> 0 then None else Some i)"
| "valid_repo_id (Some (JBool b)) = (if b then Some 1 else None)"
| "valid_repo_id _ = None"

fun filter_fresh :: "node list \<Rightarrow> int set \<Rightarrow> node list \<times> int set" where
  "filter_fresh [] seen = ([], seen)"
| "filter_fresh (n # ns) seen =
     (case valid_repo_id (n_databaseId n) of
        None \<Rightarrow> filter_fresh ns seen
      | Some i \<Rightarrow>
          if i \<in> seen then filter_fresh ns seen
          else (case filter_fresh ns (insert i seen) of
                  (fs, seen') \<Rightarrow> (n # fs, seen')))"

text \<open>\<^verbatim>\<open>int(n["databaseId"])\<close>, read only from fresh snapshots.\<close>

definition node_repo_id :: "node \<Rightarrow> int" where
  "node_repo_id n = (case valid_repo_id (n_databaseId n) of Some i \<Rightarrow> i | None \<Rightarrow> 0)"

text \<open>
  The rows (id, name, created_at, description, homepage_url) for the \<^verbatim>\<open>repo\<close> table.
  \<^verbatim>\<open>n["nameWithOwner"]\<close> raises \<^verbatim>\<open>KeyError\<close> when the key is absent.
\<close>

type_synonym repo_param = "int \<times> string option \<times> int option \<times> string option \<times> string option"

fun build_repo_rows :: "node list \<Rightarrow> error + repo_param list" where
  "build_repo_rows [] = Inr []"
| "build_repo_rows (n # ns) =
     (case n_nameWithOwner n of
        None \<Rightarrow> Inl KeyError
      | Some v \<Rightarrow>
          (case build_repo_rows ns of
             Inl err \<Rightarrow> Inl err
           | Inr rows \<Rightarrow>
               Inr ((node_repo_id n, sql_text v, n_createdAt n, n_description n, n_homepageUrl n)
                    # rows)))"

subsection \<open>Phases 2 and 3: name conflicts and the repo upsert (first transaction)\<close>

text \<open>
  \<^verbatim>\<open>SELECT id FROM repo WHERE name_with_owner = ? AND id != ?\<close>; a NULL parameter
  matches no row.
\<close>

definition conflict_ids :: "repo_row list \<Rightarrow> string option \<times> int \<Rightarrow> int list" where
  "conflict_ids rs p =
     (case fst p of
        None \<Rightarrow> []
      | Some nm \<Rightarrow> map r_id (filter (\<lambda>r. r_name_with_owner r = nm \<and> r_id r \<noteq> snd p) rs))"

definition delete_conflict_latest :: "repo_row list \<Rightarrow> string option \<times> int \<Rightarrow> latest_row list \<Rightarrow> latest_row list" where
  "delete_conflict_latest rs p ls = filter (\<lambda>l. rl_repo_id l \<notin> set (conflict_ids rs p)) ls"

definition delete_conflict_topics :: "repo_row list \<Rightarrow> string option \<times> int \<Rightarrow> (int \<times> int) list \<Rightarrow> (int \<times> int) list" where
  "delete_conflict_topics rs p ts = filter (\<lambda>t. fst t \<notin> set (conflict_ids rs p)) ts"

text \<open>
  \<^verbatim>\<open>UPDATE repo SET name_with_owner = name_with_owner || '-renamed-' || id
  WHERE name_with_owner = ? AND id != ?\<close>: the \<^verbatim>\<open>id\<close> of the SET clause is the column of
  the row being updated. The UNIQUE constraint on the name makes the statement fail when
  the new name is already taken by another row.
\<close>

definition renamed :: "repo_row \<Rightarrow> repo_row" where
  "renamed r = r\<lparr>r_name_with_owner := r_name_with_owner r @ ''-renamed-'' @ show_int (r_id r)\<rparr>"

definition name_taken :: "repo_row list \<Rightarrow> int \<Rightarrow> string \<Rightarrow> bool" where
  "name_taken rs i nm = list_ex (\<lambda>r. r_id r \<noteq> i \<and> r_name_with_owner r = nm) rs"

definition rename_conflict :: "string option \<times> int \<Rightarrow> repo_row list \<Rightarrow> error + repo_row list" where
  "rename_conflict p rs =
     (case fst p of
        None \<Rightarrow> Inr rs
      | Some nm \<Rightarrow>
          (let hit = (\<lambda>r. r_name_with_owner r = nm \<and> r_id r \<noteq> snd p);
               rs' = map (\<lambda>r. if hit r then renamed r else r) rs
           in if list_ex (\<lambda>r. hit r \<and> name_taken rs' (r_id r) (r_name_with_owner (renamed r))) rs
              then Inl IntegrityError
              else Inr rs'))"

fun rename_conflicts :: "(string option \<times> int) list \<Rightarrow> repo_row list \<Rightarrow> error + repo_row list" where
  "rename_conflicts [] rs = Inr rs"
| "rename_conflicts (p # ps) rs =
     (case rename_conflict p rs of
        Inl err \<Rightarrow> Inl err
      | Inr rs' \<Rightarrow> rename_conflicts ps rs')"

text \<open>
  \<^verbatim>\<open>INSERT INTO repo ... ON CONFLICT(id) DO UPDATE SET name_with_owner, description,
  homepage_url\<close>: \<^verbatim>\<open>created_at\<close> is written at insertion only. A NULL name violates
  NOT NULL, a name held by another id violates UNIQUE.
\<close>

definition upsert_repo_row :: "repo_param \<Rightarrow> repo_row list \<Rightarrow> error + repo_row list" where
  "upsert_repo_row p rs =
     (case p of (i, nmo, created, descr, home) \<Rightarrow>
        (case nmo of
           None \<Rightarrow> Inl IntegrityError
         | Some nm \<Rightarrow>
             if name_taken rs i nm then Inl IntegrityError
             else if list_ex (\<lambda>r. r_id r = i) rs
             then Inr (map (\<lambda>r. if r_id r = i
                                 then r\<lparr>r_name_with_owner := nm, r_description := descr,
                                        r_homepage_url := home\<rparr>
                                 else r) rs)
             else Inr (rs @ [\<lparr>r_id = i, r_name_with_owner = nm, r_description = descr,
                               r_homepage_url = home, r_created_at = created\<rparr>])))"

fun upsert_repo_rows :: "repo_param list \<Rightarrow> repo_row list \<Rightarrow> error + repo_row list" where
  "upsert_repo_rows [] rs = Inr rs"
| "upsert_repo_rows (p # ps) rs =
     (case upsert_repo_row p rs of
        Inl err \<Rightarrow> Inl err
      | Inr rs' \<Rightarrow> upsert_repo_rows ps rs')"

text \<open>
  The first \<^verbatim>\<open>with self.conn\<close> block. The three \<^verbatim>\<open>executemany\<close> calls run one after
  the other, each over all (name, id) pairs in batch order; an exception rolls the block
  back, which the caller of this function sees as the unchanged database.
\<close>

definition resolve_and_upsert :: "repo_param list \<Rightarrow> db \<Rightarrow> error + db" where
  "resolve_and_upsert repo_rows d =
     (let conflict_params = map (\<lambda>row. (fst (snd row), fst row)) repo_rows;
          ls = fold (delete_conflict_latest (repo d)) conflict_params (repo_latest d);
          ts = fold (delete_conflict_topics (repo d)) conflict_params (repo_topic_latest d)
      in case rename_conflicts conflict_params (repo d) of
           Inl err \<Rightarrow> Inl err
         | Inr rs \<Rightarrow>
             (case upsert_repo_rows repo_rows rs of
                Inl err \<Rightarrow> Inl err
              | Inr rs' \<Rightarrow> Inr (d\<lparr>repo := rs', repo_latest := ls, repo_topic_latest := ts\<rparr>)))"

subsection \<open>Phase 4: the diff against \<^verbatim>\<open>repo_latest\<close>\<close>

text \<open>
  \<^verbatim>\<open>_fetch_latest_metrics\<close>: the dictionary from the given repo ids to their
  \<^verbatim>\<open>repo_latest\<close> row (\<^verbatim>\<open>repo_id\<close> is the table's primary key).
\<close>

definition fetch_latest_metrics :: "db \<Rightarrow> int list \<Rightarrow> int \<rightharpoonup> latest_row" where
  "fetch_latest_metrics d repo_ids =
     (\<lambda>i. if i \<in> set repo_ids then find (\<lambda>l. rl_repo_id l = i) (repo_latest d) else None)"

text \<open>The lists the loop over the fresh snapshots collects for the second transaction.\<close>

record plan =
  latest_rows :: "latest_row list"
  hist_insert_rows :: "hist_row list"
  hist_extend_rows :: "(int \<times> int \<times> int) list"
  topic_repo_ids_to_refresh :: "int list"
  topic_pairs_to_insert :: "(int \<times> int) list"

definition node_stars :: "node \<Rightarrow> int" where
  "node_stars n = (case n_stargazerCount n of None \<Rightarrow> 0 | Some v \<Rightarrow> v)"

definition node_forks :: "node \<Rightarrow> int" where
  "node_forks n = (case n_forkCount n of None \<Rightarrow> 0 | Some v \<Rightarrow> v)"

definition node_watchers :: "node \<Rightarrow> int" where
  "node_watchers n = (case n_watchers n of None \<Rightarrow> 0 | Some v \<Rightarrow> v)"

text \<open>
  \<^verbatim>\<open>changed = old_stars != stars or old_forks != forks or old_watchers != watchers or
  old_disk_i != disk_usage_i\<close>; \<^verbatim>\<open>None != None\<close> is false in Python.
\<close>

definition changed :: "latest_row \<Rightarrow> node \<Rightarrow> bool" where
  "changed old n =
     (rl_stars old \<noteq> node_stars n \<or> rl_forks old \<noteq> node_forks n
      \<or> rl_watchers old \<noteq> node_watchers n \<or> rl_disk_usage old \<noteq> n_diskUsage n)"

definition new_hist_row :: "int \<Rightarrow> node \<Rightarrow> hist_row" where
  "new_hist_row run n =
     \<lparr>h_repo_id = node_repo_id n, h_start_run_id = run, h_end_run_id = run,
      h_stars = node_stars n, h_forks = node_forks n, h_watchers = node_watchers n,
      h_disk_usage = n_diskUsage n\<rparr>"

text \<open>The history start chosen for a snapshot, given its \<^verbatim>\<open>repo_latest\<close> row if any.\<close>

definition history_start :: "int \<Rightarrow> latest_row option \<Rightarrow> node \<Rightarrow> int" where
  "history_start run old n =
     (case old of
        None \<Rightarrow> run
      | Some ol \<Rightarrow> if changed ol n then run else rl_history_start_run_id ol)"

definition opens_segment :: "latest_row option \<Rightarrow> node \<Rightarrow> bool" where
  "opens_segment old n = (case old of None \<Rightarrow> True | Some ol \<Rightarrow> changed ol n)"

definition new_latest_row :: "int \<Rightarrow> latest_row option \<Rightarrow> int option \<Rightarrow> node \<Rightarrow> latest_row" where
  "new_latest_row run old pl_id n =
     \<lparr>rl_repo_id = node_repo_id n, rl_run_id = run,
      rl_history_start_run_id = history_start run old n,
      rl_stars = node_stars n, rl_forks = node_forks n, rl_watchers = node_watchers n,
      rl_disk_usage = n_diskUsage n, rl_updated_at = n_updatedAt n,
      rl_pushed_at = n_pushedAt n, rl_is_archived = (if n_isArchived n then 1 else 0),
      rl_primary_language_id = pl_id\<rparr>"

fun intern_topics :: "string list \<Rightarrow> engine \<Rightarrow> (error + int list) \<times> engine" where
  "intern_topics [] e = (Inr [], e)"
| "intern_topics (t # ts) e =
     (case get_or_create_topic_id t e of
        (Inl err, e1) \<Rightarrow> (Inl err, e1)
      | (Inr tid, e1) \<Rightarrow>
          (case intern_topics ts e1 of
             (Inl err, e2) \<Rightarrow> (Inl err, e2)
           | (Inr tids, e2) \<Rightarrow> (Inr (tid # tids), e2)))"

text \<open>
  The loop \<^verbatim>\<open>for n in fresh_nodes\<close> of lines 353 to 426. Languages and topics are
  interned while it runs (each in a transaction of its own), so the engine is threaded
  through; an exception leaves the engine as it was when it was raised.
\<close>

fun diff_nodes :: "int \<Rightarrow> (int \<rightharpoonup> latest_row) \<Rightarrow> node list \<Rightarrow> engine \<Rightarrow> (error + plan) \<times> engine" where
  "diff_nodes run existing_latest [] e =
     (Inr \<lparr>latest_rows = [], hist_insert_rows = [], hist_extend_rows = [],
           topic_repo_ids_to_refresh = [], topic_pairs_to_insert = []\<rparr>, e)"
| "diff_nodes run existing_latest (n # ns) e =
     (case get_or_create_language_id (n_primaryLanguage n) e of
        (pl_id, e1) \<Rightarrow>
          (let repo_id = node_repo_id n;
               old = existing_latest repo_id;
               hs = history_start run old n
           in case intern_topics (filter (\<lambda>t. t \<noteq> []) (n_repositoryTopics n)) e1 of
                (Inl err, e2) \<Rightarrow> (Inl err, e2)
              | (Inr tids, e2) \<Rightarrow>
                  (case diff_nodes run existing_latest ns e2 of
                     (Inl err, e3) \<Rightarrow> (Inl err, e3)
                   | (Inr p, e3) \<Rightarrow>
                       (Inr \<lparr>latest_rows = new_latest_row run old pl_id n # latest_rows p,
                             hist_insert_rows =
                               (if opens_segment old n then [new_hist_row run n] else [])
                               @ hist_insert_rows p,
                             hist_extend_rows =
                               (if opens_segment old n then [] else [(run, repo_id, hs)])
                               @ hist_extend_rows p,
                             topic_repo_ids_to_refresh = repo_id # topic_repo_ids_to_refresh p,
                             topic_pairs_to_insert =
                               map (\<lambda>tid. (repo_id, tid)) tids @ topic_pairs_to_insert p\<rparr>,
                        e3))))"

subsection \<open>Phases 5 and 6: the second transaction\<close>

text \<open>\<^verbatim>\<open>INSERT INTO repo_latest ... ON CONFLICT(repo_id) DO UPDATE SET\<close> every other column.\<close>

definition upsert_latest_row :: "latest_row \<Rightarrow> latest_row list \<Rightarrow> latest_row list" where
  "upsert_latest_row row ls =
     (if list_ex (\<lambda>l. rl_repo_id l = rl_repo_id row) ls
      then map (\<lambda>l. if rl_repo_id l = rl_repo_id row then row else l) ls
      else ls @ [row])"

text \<open>
  A plain \<^verbatim>\<open>INSERT INTO repo_metrics_hist\<close>: the primary key (repo_id, start_run_id)
  makes it fail when the segment is already there.
\<close>

definition insert_hist_row :: "hist_row \<Rightarrow> hist_row list \<Rightarrow> error + hist_row list" where
  "insert_hist_row row hs =
     (if list_ex (\<lambda>h. h_repo_id h = h_repo_id row \<and> h_start_run_id h = h_start_run_id row) hs
      then Inl IntegrityError
      else Inr (hs @ [row]))"

fun insert_hist_rows :: "hist_row list \<Rightarrow> hist_row list \<Rightarrow> error + hist_row list" where
  "insert_hist_rows [] hs = Inr hs"
| "insert_hist_rows (row # rows) hs =
     (case insert_hist_row row hs of
        Inl err \<Rightarrow> Inl err
      | Inr hs' \<Rightarrow> insert_hist_rows rows hs')"

text \<open>\<^verbatim>\<open>UPDATE repo_metrics_hist SET end_run_id = ? WHERE repo_id = ? AND start_run_id = ?\<close>\<close>

definition extend_hist_row :: "int \<times> int \<times> int \<Rightarrow> hist_row list \<Rightarrow> hist_row list" where
  "extend_hist_row p hs =
     (case p of (run, repo_id, start) \<Rightarrow>
        map (\<lambda>h. if h_repo_id h = repo_id \<and> h_start_run_id h = start
                 then h\<lparr>h_end_run_id := run\<rparr> else h) hs)"

text \<open>\<^verbatim>\<open>INSERT OR IGNORE INTO repo_topic_latest(repo_id, topic_id)\<close>\<close>

definition insert_or_ignore_pair :: "int \<times> int \<Rightarrow> (int \<times> int) list \<Rightarrow> (int \<times> int) list" where
  "insert_or_ignore_pair p ts = (if p \<in> set ts then ts else ts @ [p])"

definition apply_plan :: "plan \<Rightarrow> db \<Rightarrow> error + db" where
  "apply_plan p d =
     (let ls = fold upsert_latest_row (latest_rows p) (repo_latest d)
      in case insert_hist_rows (hist_insert_rows p) (repo_metrics_hist d) of
           Inl err \<Rightarrow> Inl err
         | Inr hs \<Rightarrow>
             (let hs' = fold extend_hist_row (hist_extend_rows p) hs;
                  ts = filter (\<lambda>t. fst t \<notin> set (topic_repo_ids_to_refresh p))
                         (repo_topic_latest d);
                  ts' = fold insert_or_ignore_pair (topic_pairs_to_insert p) ts
              in Inr (d\<lparr>repo_latest := ls, repo_metrics_hist := hs',
                        repo_topic_latest := ts'\<rparr>)))"

subsection \<open>\<^verbatim>\<open>upsert_from_github_nodes\<close>\<close>

text \<open>
  The result is the exception that left the call, if any, and the engine afterwards. The
  processed ids are recorded and the run is created before anything can fail; a failed
  transaction is rolled back, the ones committed before it stay.
\<close>

definition upsert_from_github_nodes :: "int \<Rightarrow> node list \<Rightarrow> engine \<Rightarrow> error option \<times> engine" where
  "upsert_from_github_nodes now nodes e0 =
     (case begin_run now e0 of
        (run, e1) \<Rightarrow>
          (case filter_fresh nodes (processed_repo_ids e1) of
             (fresh_nodes, seen) \<Rightarrow>
               (let e2 = e1\<lparr>processed_repo_ids := seen\<rparr>
                in if fresh_nodes = [] then (None, e2)
                   else (case build_repo_rows fresh_nodes of
                           Inl err \<Rightarrow> (Some err, e2)
                         | Inr repo_rows \<Rightarrow>
                             (case resolve_and_upsert repo_rows (conn e2) of
                                Inl err \<Rightarrow> (Some err, e2)
                              | Inr d3 \<Rightarrow>
                                  (let e3 = e2\<lparr>conn := d3\<rparr>;
                                       existing_latest =
                                         fetch_latest_metrics d3 (map fst repo_rows)
                                   in case diff_nodes run existing_latest fresh_nodes e3 of
                                        (Inl err, e4) \<Rightarrow> (Some err, e4)
                                      | (Inr p, e4) \<Rightarrow>
                                          (case apply_plan p (conn e4) of
                                             Inl err \<Rightarrow> (Some err, e4)
                                           | Inr d5 \<Rightarrow> (None, e4\<lparr>conn := d5\<rparr>))))))))"

section \<open>Queries (db.py)\<close>

subsection \<open>The joined rows of \<^verbatim>\<open>select_latest_base_sql\<close>\<close>

text \<open>
  \<^verbatim>\<open>FROM repo_latest rl JOIN repo r ON r.id = rl.repo_id JOIN fetch_run fr ON fr.id =
  rl.run_id\<close>: both joins are on a primary key, so each \<^verbatim>\<open>repo_latest\<close> row finds at most
  one partner in each table, and \<^verbatim>\<open>GROUP BY rl.repo_id\<close> (\<^verbatim>\<open>repo_id\<close> is the primary
  key of \<^verbatim>\<open>repo_latest\<close>) leaves one row for each of them. The LEFT JOINs contribute
  the language name and the concatenated topic names.
\<close>

definition join_repo :: "db \<Rightarrow> latest_row \<Rightarrow> (latest_row \<times> repo_row) option" where
  "join_repo d rl =
     (case find (\<lambda>r. r_id r = rl_repo_id rl) (repo d) of
        None \<Rightarrow> None
      | Some r \<Rightarrow> Some (rl, r))"

definition join_fetch_run :: "db \<Rightarrow> latest_row \<times> repo_row \<Rightarrow> (latest_row \<times> repo_row \<times> int) option" where
  "join_fetch_run d j =
     (case find (\<lambda>fr. fst fr = rl_run_id (fst j)) (fetch_run d) of
        None \<Rightarrow> None
      | Some fr \<Rightarrow> Some (fst j, snd j, snd fr))"

definition language_name :: "db \<Rightarrow> latest_row \<Rightarrow> string option" where
  "language_name d rl =
     (case rl_primary_language_id rl of
        None \<Rightarrow> None
      | Some i \<Rightarrow> map_option snd (find (\<lambda>row. fst row = i) (language d)))"

definition topic_names :: "db \<Rightarrow> int \<Rightarrow> string list" where
  "topic_names d repo_id =
     concat (map (\<lambda>rtl. map snd (filter (\<lambda>t. fst t = snd rtl) (topic d)))
               (filter (\<lambda>rtl. fst rtl = repo_id) (repo_topic_latest d)))"

text \<open>\<^verbatim>\<open>GROUP_CONCAT(t.name, char(31))\<close>: NULL for an empty group.\<close>

fun group_concat :: "string list \<Rightarrow> string option" where
  "group_concat [] = None"
| "group_concat [x] = Some x"
| "group_concat (x # y # ys) =
     (case group_concat (y # ys) of None \<Rightarrow> Some x | Some rest \<Rightarrow> Some (x @ CHR 0x1F # rest))"

record sel_row =
  nameWithOwner :: string
  globalRank :: "int option"
  stargazerCount :: int
  newStars :: "int option"
  forkCount :: int
  watchersCount :: int
  diskUsage :: "int option"
  description :: "string option"
  homepageUrl :: "string option"
  createdAtUnix :: "int option"
  updatedAtUnix :: "int option"
  pushedAtUnix :: "int option"
  isArchived :: int
  primaryLanguage :: "string option"
  topicsConcat :: "string option"
  fetchedAtUnix :: int

text \<open>
  The selected columns of one joined row; \<open>rank\<close> is the \<^verbatim>\<open>globalRank\<close> column (NULL
  without the rank join) and \<open>ns\<close> the \<^verbatim>\<open>newStars\<close> column, which only the trending
  query selects.
\<close>

definition select_columns :: "db \<Rightarrow> int option \<Rightarrow> int option \<Rightarrow> latest_row \<times> repo_row \<times> int \<Rightarrow> sel_row" where
  "select_columns d rank ns j =
     (case j of (rl, r, fetched) \<Rightarrow>
        \<lparr>nameWithOwner = r_name_with_owner r, globalRank = rank, stargazerCount = rl_stars rl,
         newStars = ns, forkCount = rl_forks rl, watchersCount = rl_watchers rl,
         diskUsage = rl_disk_usage rl, description = r_description r,
         homepageUrl = r_homepage_url r, createdAtUnix = r_created_at r,
         updatedAtUnix = rl_updated_at rl, pushedAtUnix = rl_pushed_at rl,
         isArchived = rl_is_archived rl, primaryLanguage = language_name d rl,
         topicsConcat = group_concat (topic_names d (rl_repo_id rl)),
         fetchedAtUnix = fetched\<rparr>)"

subsection \<open>\<^verbatim>\<open>row_to_obj\<close>\<close>

fun split_on :: "char \<Rightarrow> string \<Rightarrow> string list" where
  "split_on c [] = [[]]"
| "split_on c (x # xs) =
     (if x = c then [] # split_on c xs
      else (case split_on c xs of [] \<Rightarrow> [[x]] | w # ws \<Rightarrow> (x # w) # ws))"

record obj =
  o_n :: string
  o_g :: "int option"
  o_s :: int
  o_f :: int
  o_w :: int
  o_d :: "int option"
  o_a :: "string option"
  o_h :: "string option"
  o_c :: "int option"
  o_p :: "int option"
  o_i :: bool
  o_l :: "string option"
  o_t :: "string list"
  o_ns :: "int option"

text \<open>
  The key \<^verbatim>\<open>ns\<close> is set only when the row has a \<^verbatim>\<open>newStars\<close> column whose value is
  truthy, that is, not zero.
\<close>

definition row_to_obj :: "sel_row \<Rightarrow> obj" where
  "row_to_obj row =
     \<lparr>o_n = nameWithOwner row, o_g = globalRank row, o_s = stargazerCount row,
      o_f = forkCount row, o_w = watchersCount row, o_d = diskUsage row,
      o_a = description row, o_h = homepageUrl row, o_c = createdAtUnix row,
      o_p = pushedAtUnix row, o_i = (isArchived row \<noteq> 0), o_l = primaryLanguage row,
      o_t = (case topicsConcat row of
               None \<Rightarrow> []
             | Some tc \<Rightarrow> filter (\<lambda>t. t \<noteq> []) (split_on (CHR 0x1F) tc)),
      o_ns = (case newStars row of
                None \<Rightarrow> None
              | Some v \<Rightarrow> if v \<noteq> 0 then Some v else None)\<rparr>"

subsection \<open>\<^verbatim>\<open>_prepare_filter_conditions\<close>\<close>

record filters =
  f_q :: "string option"
  f_in_description :: bool
  f_language :: "string option"
  f_topic :: "string option"

definition ascii_lower :: "char \<Rightarrow> char" where
  "ascii_lower c =
     (let k = (of_char c :: nat) in if 65 \<le> k \<and> k \<le> 90 then char_of (k + 32) else c)"

text \<open>
  SQLite's LIKE on byte strings: \<^verbatim>\<open>%\<close> matches any run of characters, \<^verbatim>\<open>_\<close> any one
  character, ASCII letters match without regard to case.
\<close>

fun sql_like :: "string \<Rightarrow> string \<Rightarrow> bool" where
  "sql_like [] s = (s = [])"
| "sql_like (p # ps) s =
     (if p = CHR ''%''
      then (sql_like ps s \<or> (case s of [] \<Rightarrow> False | c # cs \<Rightarrow> sql_like (p # ps) cs))
      else (case s of
              [] \<Rightarrow> False
            | c # cs \<Rightarrow> (p = CHR ''_'' \<or> ascii_lower p = ascii_lower c) \<and> sql_like ps cs))"

text \<open>Python's \<^verbatim>\<open>str.strip()\<close> on the ASCII whitespace characters.\<close>

definition py_space :: "char \<Rightarrow> bool" where
  "py_space c = (let k = (of_char c :: nat) in (9 \<le> k \<and> k \<le> 13) \<or> (28 \<le> k \<and> k \<le> 32))"

definition strip :: "string \<Rightarrow> string" where
  "strip s = rev (dropWhile py_space (rev (dropWhile py_space s)))"

text \<open>
  The WHERE clause built from the filter tuple, as a predicate on a joined row: an empty or
  absent \<^verbatim>\<open>language\<close>, \<^verbatim>\<open>topic\<close> or (after \<^verbatim>\<open>strip\<close>) \<^verbatim>\<open>q\<close> adds no condition.
\<close>

definition where_clause :: "db \<Rightarrow> filters \<Rightarrow> latest_row \<times> repo_row \<Rightarrow> bool" where
  "where_clause d flt j =
     (case j of (rl, r) \<Rightarrow>
        (case f_language flt of
           None \<Rightarrow> True
         | Some lang \<Rightarrow> lang = [] \<or> language_name d rl = Some lang)
        \<and> (case f_topic flt of
             None \<Rightarrow> True
           | Some tp \<Rightarrow> tp = [] \<or> tp \<in> set (topic_names d (rl_repo_id rl)))
        \<and> (case f_q flt of
             None \<Rightarrow> True
           | Some q_text \<Rightarrow>
               strip q_text = []
               \<or> (let like = ''%'' @ strip q_text @ ''%''
                  in sql_like like (r_name_with_owner r)
                     \<or> (f_in_description flt
                        \<and> (case r_description r of
                             None \<Rightarrow> False
                           | Some de \<Rightarrow> sql_like like de)))))"

definition no_filters :: filters where
  "no_filters = \<lparr>f_q = None, f_in_description = True, f_language = None, f_topic = None\<rparr>"

text \<open>
  \<^verbatim>\<open>count_base_sql\<close> with the WHERE clause: \<^verbatim>\<open>COUNT(DISTINCT rl.repo_id)\<close> over
  \<^verbatim>\<open>repo_latest JOIN repo\<close>.
\<close>

definition count_leaderboard :: "db \<Rightarrow> filters \<Rightarrow> int" where
  "count_leaderboard d flt =
     int (length (remdups (map (\<lambda>j. rl_repo_id (fst j))
                    (filter (where_clause d flt) (List.map_filter (join_repo d) (repo_latest d))))))"

text \<open>The rows of the leaderboard queries before ordering: joined, filtered, grouped.\<close>

definition candidate_rows :: "db \<Rightarrow> filters \<Rightarrow> (latest_row \<times> repo_row \<times> int) list" where
  "candidate_rows d flt =
     List.map_filter (join_fetch_run d)
       (filter (where_clause d flt) (List.map_filter (join_repo d) (repo_latest d)))"

subsection \<open>Ordering and paging\<close>

text \<open>
  The \<^verbatim>\<open>sqlite3\<close> module raises \<^verbatim>\<open>OverflowError\<close> when a bound Python integer does not
  fit SQLite's signed 64-bit INTEGER.
\<close>

definition int64 :: "int \<Rightarrow> bool" where
  "int64 i = (- (2 ^ 63) \<le> i \<and> i \<le> 2 ^ 63 - 1)"

text \<open>
  The sort key of \<^verbatim>\<open>ORDER BY x DESC\<close>, to be sorted ascending: NULL is SQLite's smallest
  value, so it comes last.
\<close>

definition desc_key :: "int option \<Rightarrow> int \<times> int" where
  "desc_key v = (case v of None \<Rightarrow> (1, 0) | Some i \<Rightarrow> (0, - i))"

text \<open>\<^verbatim>\<open>LIMIT 100 OFFSET ?\<close>: SQLite reads a negative offset as 0.\<close>

definition limit_offset :: "int \<Rightarrow> 'a list \<Rightarrow> 'a list" where
  "limit_offset off xs = take 100 (drop (nat off) xs)"

definition sql_max :: "int list \<Rightarrow> int option" where
  "sql_max xs = (case xs of [] \<Rightarrow> None | x # rest \<Rightarrow> Some (fold max rest x))"

subsection \<open>\<^verbatim>\<open>trending_leaderboard\<close>\<close>

definition base_run_id_for_window :: "db \<Rightarrow> int \<Rightarrow> error + int" where
  "base_run_id_for_window d window_seconds =
     (case sql_max (map snd (fetch_run d)) of
        None \<Rightarrow> Inr 0
      | Some now_ts \<Rightarrow>
          (let cutoff = now_ts - window_seconds
           in if \<not> int64 cutoff then Inl OverflowError
              else (case sql_max (map fst (filter (\<lambda>fr. snd fr \<le> cutoff) (fetch_run d))) of
                      None \<Rightarrow> Inr 0
                    | Some base_id \<Rightarrow> Inr base_id)))"

text \<open>
  The correlated subquery \<^verbatim>\<open>SELECT h.stars FROM repo_metrics_hist h WHERE h.repo_id =
  rl.repo_id AND h.start_run_id <= ? AND h.end_run_id >= ? ORDER BY h.end_run_id ASC
  LIMIT 1\<close>, NULL when no segment covers the base run.
\<close>

definition covers :: "int \<Rightarrow> int \<Rightarrow> hist_row \<Rightarrow> bool" where
  "covers repo_id base_run_id h =
     (h_repo_id h = repo_id \<and> h_start_run_id h \<le> base_run_id \<and> h_end_run_id h \<ge> base_run_id)"

definition covering :: "db \<Rightarrow> int \<Rightarrow> int \<Rightarrow> hist_row list" where
  "covering d repo_id base_run_id = filter (covers repo_id base_run_id) (repo_metrics_hist d)"

definition base_stars :: "db \<Rightarrow> int \<Rightarrow> int \<Rightarrow> int option" where
  "base_stars d repo_id base_run_id =
     (case sort_key h_end_run_id (covering d repo_id base_run_id) of
        [] \<Rightarrow> None
      | h # _ \<Rightarrow> Some (h_stars h))"

text \<open>\<^verbatim>\<open>MAX(rl.stars - COALESCE((subquery), rl.stars), 0) AS newStars\<close>\<close>

definition new_stars :: "db \<Rightarrow> int \<Rightarrow> latest_row \<Rightarrow> int" where
  "new_stars d base_run_id rl =
     max (rl_stars rl
          - (case base_stars d (rl_repo_id rl) base_run_id of
               None \<Rightarrow> rl_stars rl
             | Some b \<Rightarrow> b)) 0"

text \<open>
  The rows of the trending query, \<^verbatim>\<open>ORDER BY newStars DESC, rl.stars DESC,
  r.name_with_owner ASC LIMIT 100 OFFSET ?\<close>, before \<^verbatim>\<open>row_to_obj\<close>.
\<close>

definition trending_rows :: "db \<Rightarrow> int \<Rightarrow> int \<Rightarrow> filters \<Rightarrow> sel_row list" where
  "trending_rows d base_run_id off flt =
     map (\<lambda>j. select_columns d None (Some (new_stars d base_run_id (fst j))) j)
       (limit_offset off
          (sort_key (\<lambda>j. (- new_stars d base_run_id (fst j), - rl_stars (fst j),
                          r_name_with_owner (fst (snd j))))
             (candidate_rows d flt)))"

definition trending_leaderboard :: "db \<Rightarrow> int \<Rightarrow> int \<Rightarrow> filters \<Rightarrow> error + obj list" where
  "trending_leaderboard d window_seconds page flt =
     (case base_run_id_for_window d window_seconds of
        Inl err \<Rightarrow> Inl err
      | Inr base_run_id \<Rightarrow>
          (let off = (page - 1) * 100
           in if \<not> int64 off then Inl OverflowError
              else Inr (map row_to_obj (trending_rows d base_run_id off flt))))"

subsection \<open>\<^verbatim>\<open>leaderboard\<close>\<close>

datatype order_col = Rl_stars | Rl_forks | Rl_watchers | Rl_disk_usage

definition trending_map :: "(string \<times> int) list" where
  "trending_map =
     [(''trending24h'', 24 * 3600), (''trending3d'', 3 * 24 * 3600),
      (''trending7d'', 7 * 24 * 3600), (''trending30d'', 30 * 24 * 3600)]"

definition metric_map :: "(string \<times> order_col) list" where
  "metric_map =
     [(''stars'', Rl_stars), (''stargazerCount'', Rl_stars),
      (''forks'', Rl_forks), (''forkCount'', Rl_forks),
      (''watchers'', Rl_watchers), (''watchersCount'', Rl_watchers),
      (''diskUsage'', Rl_disk_usage), (''disk_usage'', Rl_disk_usage)]"

fun order_value :: "order_col \<Rightarrow> latest_row \<Rightarrow> int option" where
  "order_value Rl_stars rl = Some (rl_stars rl)"
| "order_value Rl_forks rl = Some (rl_forks rl)"
| "order_value Rl_watchers rl = Some (rl_watchers rl)"
| "order_value Rl_disk_usage rl = rl_disk_usage rl"

text \<open>\<^verbatim>\<open>ORDER BY {order_expr} DESC, r.name_with_owner ASC\<close> over the candidate rows.\<close>

definition ordered_rows :: "db \<Rightarrow> order_col \<Rightarrow> filters \<Rightarrow> (latest_row \<times> repo_row \<times> int) list" where
  "ordered_rows d col flt =
     sort_key (\<lambda>j. (desc_key (order_value col (fst j)), r_name_with_owner (fst (snd j))))
       (candidate_rows d flt)"

definition leaderboard :: "db \<Rightarrow> string \<Rightarrow> int \<Rightarrow> filters \<Rightarrow> error + obj list" where
  "leaderboard d metric page flt =
     (case map_of trending_map metric of
        Some window_seconds \<Rightarrow> trending_leaderboard d window_seconds page flt
      | None \<Rightarrow>
          (case map_of metric_map metric of
             None \<Rightarrow> Inl ValueError
           | Some order_expr \<Rightarrow>
               (let off = (page - 1) * 100
                in if \<not> int64 off then Inl OverflowError
                   else Inr (map (\<lambda>j. row_to_obj (select_columns d None None j))
                               (limit_offset off (ordered_rows d order_expr flt))))))"

subsection \<open>\<^verbatim>\<open>get_repo_latest\<close>, \<^verbatim>\<open>get_global_rank\<close>, \<^verbatim>\<open>history_segments\<close>\<close>

text \<open>
  The rank subquery: \<^verbatim>\<open>ROW_NUMBER() OVER (ORDER BY rl2.stars DESC, r2.name_with_owner
  ASC)\<close> over \<^verbatim>\<open>repo_latest JOIN repo\<close>, as pairs (repo_id, globalRank).
\<close>

definition rank_rows :: "db \<Rightarrow> (int \<times> int) list" where
  "rank_rows d =
     (let sorted = sort_key (\<lambda>j. (- rl_stars (fst j), r_name_with_owner (snd j)))
                     (List.map_filter (join_repo d) (repo_latest d))
      in zip (map (\<lambda>j. rl_repo_id (fst j)) sorted) (map (\<lambda>k. int k + 1) [0..<length sorted]))"

definition get_repo_latest :: "db \<Rightarrow> string \<Rightarrow> obj option" where
  "get_repo_latest d name_with_owner =
     (case List.map_filter
             (\<lambda>j. case map_of (rank_rows d) (rl_repo_id (fst j)) of
                     None \<Rightarrow> None
                   | Some g \<Rightarrow> Some (select_columns d (Some g) None j))
             (List.map_filter (join_fetch_run d)
                (filter (\<lambda>j. r_name_with_owner (snd j) = name_with_owner)
                   (List.map_filter (join_repo d) (repo_latest d)))) of
        [] \<Rightarrow> None
      | row # _ \<Rightarrow> Some (row_to_obj row))"

text \<open>
  \<^verbatim>\<open>get_global_rank\<close>: for the first row of \<^verbatim>\<open>repo_latest JOIN repo\<close> with the given
  name, one more than the number of joined rows that rank before it.
\<close>

definition ranks_before :: "latest_row \<times> repo_row \<Rightarrow> latest_row \<times> repo_row \<Rightarrow> bool" where
  "ranks_before j2 j =
     (rl_stars (fst j2) > rl_stars (fst j)
      \<or> (rl_stars (fst j2) = rl_stars (fst j)
         \<and> r_name_with_owner (snd j2) < r_name_with_owner (snd j)))"

definition get_global_rank :: "db \<Rightarrow> string \<Rightarrow> int option" where
  "get_global_rank d name_with_owner =
     (case filter (\<lambda>j. r_name_with_owner (snd j) = name_with_owner)
             (List.map_filter (join_repo d) (repo_latest d)) of
        [] \<Rightarrow> None
      | j # _ \<Rightarrow>
          Some (int (length (filter (\<lambda>j2. ranks_before j2 j)
                               (List.map_filter (join_repo d) (repo_latest d)))) + 1))"

record segment =
  startFetchedAt :: int
  endFetchedAt :: int
  seg_s :: int
  seg_f :: int
  seg_w :: int
  seg_d :: "int option"

definition join_segment :: "db \<Rightarrow> hist_row \<Rightarrow> segment option" where
  "join_segment d h =
     (case find (\<lambda>fr. fst fr = h_start_run_id h) (fetch_run d) of
        None \<Rightarrow> None
      | Some rs \<Rightarrow>
          (case find (\<lambda>fr. fst fr = h_end_run_id h) (fetch_run d) of
             None \<Rightarrow> None
           | Some re \<Rightarrow>
               Some \<lparr>startFetchedAt = snd rs, endFetchedAt = snd re, seg_s = h_stars h,
                     seg_f = h_forks h, seg_w = h_watchers h, seg_d = h_disk_usage h\<rparr>))"

text \<open>
  \<^verbatim>\<open>history_segments\<close>: the empty list when no repo has the name; otherwise the repo's
  segments by \<^verbatim>\<open>start_run_id\<close>, at most \<^verbatim>\<open>limit\<close> of them (SQLite reads a negative
  LIMIT as no limit).
\<close>

definition history_segments :: "db \<Rightarrow> string \<Rightarrow> int \<Rightarrow> error + segment list" where
  "history_segments d name_with_owner limit =
     (case find (\<lambda>r. r_name_with_owner r = name_with_owner) (repo d) of
        None \<Rightarrow> Inr []
      | Some row \<Rightarrow>
          if \<not> int64 limit then Inl OverflowError
          else (let segs = List.map_filter (join_segment d)
                             (sort_key h_start_run_id
                                (filter (\<lambda>h. h_repo_id h = r_id row) (repo_metrics_hist d)))
                in Inr (if limit < 0 then segs else take (nat limit) segs)))"

section \<open>HTTP handlers (app.py)\<close>

record badge =
  schemaVersion :: int
  label :: string
  message :: string
  color :: string
  cacheSeconds :: "int option"

text \<open>The JSON bodies the handlers build, and store in the response cache.\<close>

datatype body =
    LeaderboardBody int int int "obj list"
  | RepoBody obj
  | HistoryBody string "segment list"
  | BadgeBody badge

text \<open>
  What a request ends in: a JSON body (200), an \<^verbatim>\<open>HTTPException\<close> with its status and
  detail, the redirect of the short URL, the framework's rejection of a parameter that
  violates its declared constraint, or an exception the handler does not catch.
\<close>

datatype response =
    Json body
  | HTTPException int string
  | RedirectResponse string int
  | RequestValidationError
  | Uncaught error

fun status_code :: "response \<Rightarrow> int" where
  "status_code (Json b) = 200"
| "status_code (HTTPException st detail) = st"
| "status_code (RedirectResponse url st) = st"
| "status_code RequestValidationError = 422"
| "status_code (Uncaught err) = 500"

subsection \<open>\<^verbatim>\<open>LRUCache\<close>\<close>

text \<open>The \<^verbatim>\<open>OrderedDict\<close> as the list of its items, oldest first.\<close>

record lru_cache =
  max_size :: nat
  cache :: "(string \<times> body) list"

definition lru_get :: "string \<Rightarrow> lru_cache \<Rightarrow> body option \<times> lru_cache" where
  "lru_get key c =
     (case map_of (cache c) key of
        None \<Rightarrow> (None, c)
      | Some v \<Rightarrow> (Some v, c\<lparr>cache := filter (\<lambda>kv. fst kv \<noteq> key) (cache c) @ [(key, v)]\<rparr>))"

definition lru_set :: "string \<Rightarrow> body \<Rightarrow> lru_cache \<Rightarrow> lru_cache" where
  "lru_set key v c =
     (let items = (if list_ex (\<lambda>kv. fst kv = key) (cache c)
                   then map (\<lambda>kv. if fst kv = key then (key, v) else kv) (cache c)
                   else cache c @ [(key, v)])
      in c\<lparr>cache := (if length items > max_size c then tl items else items)\<rparr>)"

subsection \<open>The routes\<close>



definition LEADERBOARD_PAGE_SIZE :: int where
  "LEADERBOARD_PAGE_SIZE = 100"

text \<open>\<^verbatim>\<open>totalPages\<close>: the ceiling of total / 100, and 1 when nothing matches.\<close>

definition total_pages :: "int \<Rightarrow> int" where
  "total_pages n =
     (if n > 0 then (n + LEADERBOARD_PAGE_SIZE - 1) div LEADERBOARD_PAGE_SIZE else 1)"



text \<open>\<^verbatim>\<open>GET /api/repo\<close>\<close>

definition api_repo_latest :: "db \<Rightarrow> string \<Rightarrow> lru_cache \<Rightarrow> response \<times> lru_cache" where
  "api_repo_latest d name c0 =
     (let cache_key = ''repo:'' @ name
      in case lru_get cache_key c0 of
           (Some cached, c1) \<Rightarrow> (Json cached, c1)
         | (None, c1) \<Rightarrow>
             (case get_repo_latest d name of
                None \<Rightarrow> (HTTPException 404 ''Repo not found'', c1)
              | Some result \<Rightarrow> (Json (RepoBody result), lru_set cache_key (RepoBody result) c1)))"

text \<open>\<^verbatim>\<open>GET /api/repo/history\<close>: at most 2920 segments; no branch of it raises 404.\<close>

definition api_repo_history :: "db \<Rightarrow> string \<Rightarrow> lru_cache \<Rightarrow> response \<times> lru_cache" where
  "api_repo_history d name c0 =
     (let cache_key = ''hist:'' @ name
      in case lru_get cache_key c0 of
           (Some cached, c1) \<Rightarrow> (Json cached, c1)
         | (None, c1) \<Rightarrow>
             (case history_segments d name 2920 of
                Inl err \<Rightarrow> (Uncaught err, c1)
              | Inr segs \<Rightarrow>
                  (Json (HistoryBody name segs), lru_set cache_key (HistoryBody name segs) c1)))"

text \<open>\<^verbatim>\<open>GET /api/rank\<close>: the badge; a miss is answered with a badge too.\<close>

definition api_shields_rank :: "db \<Rightarrow> string \<Rightarrow> lru_cache \<Rightarrow> response \<times> lru_cache" where
  "api_shields_rank d name c0 =
     (let cache_key = ''rank:'' @ name
      in case lru_get cache_key c0 of
           (Some cached, c1) \<Rightarrow> (Json cached, c1)
         | (None, c1) \<Rightarrow>
             (case get_global_rank d name of
                None \<Rightarrow>
                  (let result = BadgeBody \<lparr>schemaVersion = 1, label = ''rank'',
                                  message = ''repo not found'', color = ''inactive'',
                                  cacheSeconds = None\<rparr>
                   in (Json result, lru_set cache_key result c1))
              | Some rank \<Rightarrow>
                  (let result = BadgeBody \<lparr>schemaVersion = 1, label = ''global rank'',
                                  message = ''#'' @ show_int rank,
                                  color = (if rank \<le> 100 then ''brightgreen''
                                           else if rank \<le> 1000 then ''orange'' else ''blue''),
                                  cacheSeconds = Some 3600\<rparr>
                   in (Json result, lru_set cache_key result c1))))"

text \<open>\<^verbatim>\<open>urllib.parse.quote(name, safe='')\<close> on bytes.\<close>

definition unreserved :: "char \<Rightarrow> bool" where
  "unreserved c =
     (let k = (of_char c :: nat)
      in (48 \<le> k \<and> k \<le> 57) \<or> (65 \<le> k \<and> k \<le> 90) \<or> (97 \<le> k \<and> k \<le> 122)
         \<or> c = CHR ''_'' \<or> c = CHR ''.'' \<or> c = CHR ''-'' \<or> c = CHR ''~'')"

definition quote :: "string \<Rightarrow> string" where
  "quote s =
     concat (map (\<lambda>c. if unreserved c then [c]
                       else [CHR ''%'', ''0123456789ABCDEF'' ! ((of_char c :: nat) div 16),
                             ''0123456789ABCDEF'' ! ((of_char c :: nat) mod 16)]) s)"

text \<open>\<^verbatim>\<open>GET /{owner}/{repo}\<close>: this route does not use the cache.\<close>

definition repo_short_url :: "db \<Rightarrow> string \<Rightarrow> string \<Rightarrow> response" where
  "repo_short_url d owner rp =
     (let name = owner @ ''/'' @ rp
      in case get_global_rank d name of
           None \<Rightarrow> HTTPException 404 ''Repo not found''
         | Some rank \<Rightarrow>
             (let page = ((rank - 1) div LEADERBOARD_PAGE_SIZE) + 1;
                  qs = ''page='' @ show_int page @ ''&metric=stars&view=table&highlight=''
                       @ quote name @ ''&open='' @ quote name
              in RedirectResponse (''/?'' @ qs) 302))"

section \<open>Auxiliary notions and example states\<close>

definition has_repo :: "db \<Rightarrow> string \<Rightarrow> bool" where
  "has_repo d name = list_ex (\<lambda>r. r_name_with_owner r = name) (repo d)"

text \<open>The database right after \<^verbatim>\<open>_create_schema\<close> on a new file, and the cache of app.py.\<close>

definition empty_db :: db where
  "empty_db = \<lparr>repo = [], language = [], topic = [], fetch_run = [], repo_latest = [],
               repo_metrics_hist = [], repo_topic_latest = []\<rparr>"

definition response_cache :: lru_cache where
  "response_cache = \<lparr>max_size = 10000, cache = []\<rparr>"


text \<open>A new \<^verbatim>\<open>RepoDB\<close> object on a new file, and snapshots to feed it.\<close>

definition new_engine :: engine where
  "new_engine = \<lparr>conn = empty_db, run_id = None, lang_cache = Map.empty,
                 topic_cache = Map.empty, processed_repo_ids = {}\<rparr>"

definition snapshot :: "jv option \<Rightarrow> jv option \<Rightarrow> int \<Rightarrow> node" where
  "snapshot i nm st =
     \<lparr>n_databaseId = i, n_nameWithOwner = nm, n_createdAt = Some 1500000000,
      n_description = None, n_homepageUrl = None, n_stargazerCount = Some st,
      n_forkCount = Some 3, n_watchers = Some 2, n_diskUsage = None,
      n_updatedAt = None, n_pushedAt = None, n_isArchived = False,
      n_primaryLanguage = Some ''Go'', n_repositoryTopics = [''database'']\<rparr>"

text \<open>
  The next pass: another \<^verbatim>\<open>RepoDB\<close> object opened on the database the engine leaves
  behind.
\<close>

definition reopen :: "engine \<Rightarrow> engine" where
  "reopen e = new_engine\<lparr>conn := conn e\<rparr>"

text \<open>The pass state (run id and processed ids) through the phases.\<close>

definition same_pass :: "engine \<Rightarrow> engine \<Rightarrow> bool" where
  "same_pass e e' = (processed_repo_ids e' = processed_repo_ids e \<and> run_id e' = run_id e)"

text \<open>Three snapshots: without a name, well-formed, and without an id.\<close>

definition nameless :: node where
  "nameless = snapshot (Some (JInt 1)) None 10"

definition good :: node where
  "good = snapshot (Some (JInt 2)) (Some (JStr ''a/x'')) 20"

definition idless :: node where
  "idless = snapshot None (Some (JStr ''b/y'')) 30"

text \<open>One more pass: a new engine on the database, fed one batch.\<close>

definition next_pass :: "int \<Rightarrow> node list \<Rightarrow> engine \<Rightarrow> engine" where
  "next_pass now nodes e = snd (upsert_from_github_nodes now nodes (reopen e))"



text \<open>The name a snapshot binds to the \<^verbatim>\<open>repo\<close> statements: NULL for an absent or null name.\<close>

definition node_name :: "node \<Rightarrow> string option" where
  "node_name n = (case n_nameWithOwner n of None \<Rightarrow> None | Some v \<Rightarrow> sql_text v)"

text \<open>Two engines whose repo, latest, history, topic-link and run tables are the same.\<close>

definition same_tables :: "engine \<Rightarrow> engine \<Rightarrow> bool" where
  "same_tables e e' =
     (repo (conn e') = repo (conn e) \<and> repo_latest (conn e') = repo_latest (conn e)
      \<and> repo_metrics_hist (conn e') = repo_metrics_hist (conn e)
      \<and> repo_topic_latest (conn e') = repo_topic_latest (conn e)
      \<and> fetch_run (conn e') = fetch_run (conn e))"

text \<open>
  A history segment that starts where a \<^verbatim>\<open>repo_latest\<close> row says its segment starts and
  carries the same metric quadruple; the database is consistent when every
  \<^verbatim>\<open>repo_latest\<close> row has one.
\<close>

definition matches :: "latest_row \<Rightarrow> hist_row \<Rightarrow> bool" where
  "matches l h =
     (h_repo_id h = rl_repo_id l \<and> h_start_run_id h = rl_history_start_run_id l
      \<and> h_stars h = rl_stars l \<and> h_forks h = rl_forks l \<and> h_watchers h = rl_watchers l
      \<and> h_disk_usage h = rl_disk_usage l)"

definition latest_consistent :: "db \<Rightarrow> bool" where
  "latest_consistent d = list_all (\<lambda>l. list_ex (matches l) (repo_metrics_hist d)) (repo_latest d)"

text \<open>The engine after a first pass that ingested the well-formed snapshot.\<close>

definition s1_engine :: engine where
  "s1_engine = next_pass 0 [good] new_engine"

text \<open>
  The history segments of one repo; a list of segments in which those that start at a
  given run have their end set to another run; and the statement that a repo has a
  \<^verbatim>\<open>repo_latest\<close> row, written by the given run with the given history start and
  the metric quadruple of a snapshot.
\<close>

definition segments_of :: "db \<Rightarrow> int \<Rightarrow> hist_row list" where
  "segments_of d i = filter (\<lambda>h. h_repo_id h = i) (repo_metrics_hist d)"

definition extended :: "int \<Rightarrow> int \<Rightarrow> hist_row list \<Rightarrow> hist_row list" where
  "extended start run hs =
     map (\<lambda>h. if h_start_run_id h = start then h\<lparr>h_end_run_id := run\<rparr> else h) hs"


definition has_latest :: "db \<Rightarrow> int \<Rightarrow> bool" where
  "has_latest d i = list_ex (\<lambda>l. rl_repo_id l = i) (repo_latest d)"

text \<open>
  The rename scenario: a first pass ingests repo 7 under the name \<^verbatim>\<open>old/x\<close>, a second
  pass a snapshot with id 8 and the same name. \<^verbatim>\<open>s5_row\<close> is the repo row of the first
  pass.
\<close>

definition s5_old :: node where
  "s5_old = snapshot (Some (JInt 7)) (Some (JStr ''old/x'')) 10"

definition s5_new :: node where
  "s5_new = snapshot (Some (JInt 8)) (Some (JStr ''old/x'')) 20"

definition s5_engine :: engine where
  "s5_engine = next_pass 0 [s5_old] new_engine"

definition s5_after :: engine where
  "s5_after = snd (upsert_from_github_nodes 86400 [s5_new] (reopen s5_engine))"

definition s5_row :: repo_row where
  "s5_row = \<lparr>r_id = 7, r_name_with_owner = ''old/x'', r_description = None,
             r_homepage_url = None, r_created_at = Some 1500000000\<rparr>"

text \<open>
  The constraints the schema puts on the tables a leaderboard reads: the primary keys of
  \<^verbatim>\<open>repo\<close> and \<^verbatim>\<open>repo_latest\<close>, the UNIQUE name, the foreign key from
  \<^verbatim>\<open>repo_latest.run_id\<close> to \<^verbatim>\<open>fetch_run\<close>; and a table small enough for every page
  offset to fit a 64-bit integer.
\<close>

definition schema_ok :: "db \<Rightarrow> bool" where
  "schema_ok d =
     (distinct (map r_id (repo d)) \<and> distinct (map r_name_with_owner (repo d))
      \<and> distinct (map rl_repo_id (repo_latest d))
      \<and> list_all (\<lambda>l. list_ex (\<lambda>fr. fst fr = rl_run_id l) (fetch_run d)) (repo_latest d)
      \<and> int (length (repo_latest d)) + 100 < 2 ^ 63)"

text \<open>
  An unfiltered scan of the \<^verbatim>\<open>stars\<close> leaderboard: its pages 1 to \<^verbatim>\<open>totalPages\<close>,
  one after the other.
\<close>

definition leaderboard_scan :: "db \<Rightarrow> obj list" where
  "leaderboard_scan d =
     concat (map (\<lambda>page. case leaderboard d ''stars'' page no_filters of
                            Inl err \<Rightarrow> []
                          | Inr items \<Rightarrow> items)
               [1..total_pages (count_leaderboard d no_filters)])"

(*PROPERTIES*)
section \<open>Properties\<close>

subsection \<open>Joined rows\<close>

lemma in_set_map_filter:
  "y \<in> set (List.map_filter g xs) \<longleftrightarrow> (\<exists>x\<in>set xs. g x = Some y)"
  by (induction xs) (auto split: option.splits)

lemma join_repo_Some:
  "join_repo d rl = Some j \<Longrightarrow> fst j = rl \<and> snd j \<in> set (repo d) \<and> r_id (snd j) = rl_repo_id rl"
  by (auto simp: join_repo_def find_Some_iff split: option.splits)

lemma joined_in:
  "j \<in> set (List.map_filter (join_repo d) (repo_latest d)) \<Longrightarrow>
     fst j \<in> set (repo_latest d) \<and> snd j \<in> set (repo d) \<and> r_id (snd j) = rl_repo_id (fst j)"
  by (auto simp: in_set_map_filter dest!: join_repo_Some)

subsection \<open>Lookups that miss\<close>

lemma miss_joined:
  "\<not> has_repo d name \<Longrightarrow>
   filter (\<lambda>j. r_name_with_owner (snd j) = name) (List.map_filter (join_repo d) (repo_latest d)) = []"
  by (auto simp: has_repo_def list_ex_iff filter_empty_conv dest!: joined_in)

lemma miss_get_repo_latest: "\<not> has_repo d name \<Longrightarrow> get_repo_latest d name = None"
  by (simp add: get_repo_latest_def miss_joined)

lemma miss_get_global_rank: "\<not> has_repo d name \<Longrightarrow> get_global_rank d name = None"
  by (simp add: get_global_rank_def miss_joined)

lemma miss_history_segments: "\<not> has_repo d name \<Longrightarrow> history_segments d name limit = Inr []"
  by (auto simp: history_segments_def has_repo_def list_ex_iff find_Some_iff split: option.splits)

text \<open>
  Claim C9, as the code has it: when no repo row has the name and the response cache holds
  nothing under the request's key, \<^verbatim>\<open>GET /api/repo\<close> and the short URL
  \<^verbatim>\<open>GET /{owner}/{repo}\<close> answer 404, \<^verbatim>\<open>GET /api/rank\<close> answers 200 with the
  "repo not found" badge, and \<^verbatim>\<open>GET /api/repo/history\<close> answers 200 with an empty list
  of segments.
\<close>

theorem lookup_miss_responses:
  assumes "\<not> has_repo d (owner @ ''/'' @ rp)"
    and "map_of (cache c) (''repo:'' @ owner @ ''/'' @ rp) = None"
    and "map_of (cache c) (''rank:'' @ owner @ ''/'' @ rp) = None"
    and "map_of (cache c) (''hist:'' @ owner @ ''/'' @ rp) = None"
  shows "fst (api_repo_latest d (owner @ ''/'' @ rp) c) = HTTPException 404 ''Repo not found''
       \<and> repo_short_url d owner rp = HTTPException 404 ''Repo not found''
       \<and> fst (api_shields_rank d (owner @ ''/'' @ rp) c)
           = Json (BadgeBody \<lparr>schemaVersion = 1, label = ''rank'', message = ''repo not found'',
                              color = ''inactive'', cacheSeconds = None\<rparr>)
       \<and> fst (api_repo_history d (owner @ ''/'' @ rp) c)
           = Json (HistoryBody (owner @ ''/'' @ rp) [])"
  using assms
  by (simp add: api_repo_latest_def repo_short_url_def api_shields_rank_def api_repo_history_def
      lru_get_def Let_def miss_get_repo_latest miss_get_global_rank miss_history_segments)

text \<open>
  The four lookups of the name \<^verbatim>\<open>nobody/none\<close> on the empty database with an empty
  cache.
\<close>

theorem lookup_miss_responses_witness:
  "\<not> has_repo empty_db (''nobody'' @ ''/'' @ ''none'')
   \<and> fst (api_repo_latest empty_db (''nobody'' @ ''/'' @ ''none'') response_cache)
       = HTTPException 404 ''Repo not found''
   \<and> repo_short_url empty_db ''nobody'' ''none'' = HTTPException 404 ''Repo not found''
   \<and> status_code (fst (api_shields_rank empty_db (''nobody'' @ ''/'' @ ''none'') response_cache)) = 200
   \<and> fst (api_repo_history empty_db (''nobody'' @ ''/'' @ ''none'') response_cache)
       = Json (HistoryBody (''nobody'' @ ''/'' @ ''none'') [])"
proof -
  have h: "\<not> has_repo empty_db (''nobody'' @ ''/'' @ ''none'')"
    by (simp add: has_repo_def empty_db_def)
  have c1: "map_of (cache response_cache) (''repo:'' @ ''nobody'' @ ''/'' @ ''none'') = None"
    and c2: "map_of (cache response_cache) (''rank:'' @ ''nobody'' @ ''/'' @ ''none'') = None"
    and c3: "map_of (cache response_cache) (''hist:'' @ ''nobody'' @ ''/'' @ ''none'') = None"
    by (simp_all add: response_cache_def)
  from lookup_miss_responses [OF h c1 c2 c3] h show ?thesis by simp
qed

text \<open>
  Claim C9 as stated fails for the history route: on the empty database the name
  \<^verbatim>\<open>nobody/none\<close> belongs to no repo, and \<^verbatim>\<open>GET /api/repo/history\<close> answers with
  status 200, not 404.
\<close>

theorem history_miss_counterexample:
  "\<not> has_repo empty_db ''nobody/none''
   \<and> status_code (fst (api_repo_history empty_db ''nobody/none'' response_cache)) = 200"
  by (simp add: has_repo_def empty_db_def response_cache_def api_repo_history_def lru_get_def
      history_segments_def)

subsection \<open>Recognised metrics and pages\<close>









subsection \<open>The fresh snapshots of a batch\<close>

lemma filter_fresh_skip:
  "valid_repo_id (n_databaseId n) = None \<or> (\<exists>i. valid_repo_id (n_databaseId n) = Some i \<and> i \<in> seen)
   \<Longrightarrow> filter_fresh (xs @ n # ys) seen = filter_fresh (xs @ ys) seen"
  by (induction xs arbitrary: seen) (auto split: option.splits prod.splits)


lemma same_pass_refl [simp]: "same_pass e e"
  by (simp add: same_pass_def)






lemma upsert_unfold:
  assumes "begin_run now e = (run, e1)"
    and "filter_fresh nodes (processed_repo_ids e1) = (fs, seen)"
  shows "upsert_from_github_nodes now nodes e =
     (if fs = [] then (None, e1\<lparr>processed_repo_ids := seen\<rparr>)
      else (case build_repo_rows fs of
              Inl err \<Rightarrow> (Some err, e1\<lparr>processed_repo_ids := seen\<rparr>)
            | Inr repo_rows \<Rightarrow>
                (case resolve_and_upsert repo_rows (conn (e1\<lparr>processed_repo_ids := seen\<rparr>)) of
                   Inl err \<Rightarrow> (Some err, e1\<lparr>processed_repo_ids := seen\<rparr>)
                 | Inr d3 \<Rightarrow>
                     (case diff_nodes run (fetch_latest_metrics d3 (map fst repo_rows)) fs
                             (e1\<lparr>processed_repo_ids := seen, conn := d3\<rparr>) of
                        (Inl err, e4) \<Rightarrow> (Some err, e4)
                      | (Inr p, e4) \<Rightarrow>
                          (case apply_plan p (conn e4) of
                             Inl err \<Rightarrow> (Some err, e4)
                           | Inr d5 \<Rightarrow> (None, e4\<lparr>conn := d5\<rparr>))))))"
  unfolding upsert_from_github_nodes_def Let_def assms prod.case by (rule refl)

lemma begin_run_processed: "processed_repo_ids (snd (begin_run now e)) = processed_repo_ids e"
  by (simp add: begin_run_def Let_def split: option.splits)




text \<open>
  Claim C3, as the code has it: a snapshot whose \<^verbatim>\<open>databaseId\<close> is absent, null, not an
  integer or not positive is skipped silently: the call ends in the same result and the
  same engine state (database, run, caches, processed ids) as the call on the batch
  without that snapshot, so it writes nothing, raises nothing, and the other snapshots of
  the batch are ingested as they would be without it.
\<close>

theorem missing_id_skipped:
  assumes "valid_repo_id (n_databaseId n) = None"
  shows "upsert_from_github_nodes now (xs @ n # ys) e = upsert_from_github_nodes now (xs @ ys) e"
proof -
  obtain run e1 where b: "begin_run now e = (run, e1)" by (cases "begin_run now e")
  obtain fs seen where f: "filter_fresh (xs @ ys) (processed_repo_ids e1) = (fs, seen)"
    by (cases "filter_fresh (xs @ ys) (processed_repo_ids e1)")
  have f': "filter_fresh (xs @ n # ys) (processed_repo_ids e1) = (fs, seen)"
    using filter_fresh_skip [of n "processed_repo_ids e1" xs ys] assms f by simp
  show ?thesis by (simp only: upsert_unfold [OF b f] upsert_unfold [OF b f'])
qed


text \<open>
  Claim C3 as stated fails for a missing name: a batch of a snapshot with id 1 and no
  \<^verbatim>\<open>nameWithOwner\<close> key followed by a well-formed snapshot raises \<^verbatim>\<open>KeyError\<close>, and
  the well-formed snapshot is not ingested.
\<close>

theorem missing_name_counterexample:
  "fst (upsert_from_github_nodes 1700000000 [nameless, good] new_engine) = Some KeyError
   \<and> repo (conn (snd (upsert_from_github_nodes 1700000000 [nameless, good] new_engine))) = []"
  by code_simp

text \<open>
  A snapshot without an id in front of a well-formed one: the batch is ingested as the
  well-formed snapshot alone is.
\<close>

theorem missing_id_skipped_witness:
  "valid_repo_id (n_databaseId idless) = None
   \<and> upsert_from_github_nodes 1700000000 ([] @ idless # [good]) new_engine
       = upsert_from_github_nodes 1700000000 ([] @ [good]) new_engine
   \<and> map r_name_with_owner
        (repo (conn (snd (upsert_from_github_nodes 1700000000 ([] @ idless # [good]) new_engine))))
       = [''a/x'']"
proof -
  have h: "valid_repo_id (n_databaseId idless) = None"
    by (simp add: idless_def snapshot_def)
  have v: "map r_name_with_owner
        (repo (conn (snd (upsert_from_github_nodes 1700000000 ([] @ [good]) new_engine))))
       = [''a/x'']"
    by code_simp
  from missing_id_skipped [OF h, of 1700000000 "[]" "[good]" new_engine] h v
  show ?thesis by simp
qed


subsection \<open>Trending\<close>











subsection \<open>What each phase of a batch leaves untouched\<close>

lemma same_tables_refl [simp]: "same_tables e e"
  by (simp add: same_tables_def)

lemma same_tables_trans: "same_tables e e1 \<Longrightarrow> same_tables e1 e2 \<Longrightarrow> same_tables e e2"
  by (simp add: same_tables_def)

lemma language_same_tables: "same_tables e (snd (get_or_create_language_id nm e))"
  by (simp add: get_or_create_language_id_def same_tables_def Let_def split: option.splits)

lemma topic_same_tables: "same_tables e (snd (get_or_create_topic_id nm e))"
  by (simp add: get_or_create_topic_id_def same_tables_def Let_def split: option.splits)

lemma intern_topics_same_tables: "same_tables e (snd (intern_topics ts e))"
proof (induction ts arbitrary: e)
  case Nil
  then show ?case by simp
next
  case (Cons t ts)
  obtain r1 e1 where g: "get_or_create_topic_id t e = (r1, e1)"
    by (cases "get_or_create_topic_id t e")
  then have p1: "same_tables e e1"
    using topic_same_tables [of e t] by simp
  obtain r2 e2 where i: "intern_topics ts e1 = (r2, e2)"
    by (cases "intern_topics ts e1")
  then have p2: "same_tables e1 e2"
    using Cons.IH [of e1] by simp
  show ?case using g i p1 same_tables_trans [OF p1 p2] by (simp split: sum.splits)
qed

lemma diff_nodes_same_tables: "same_tables e (snd (diff_nodes run ex ns e))"
proof (induction ns arbitrary: e)
  case Nil
  then show ?case by simp
next
  case (Cons n ns)
  obtain pl e1 where l: "get_or_create_language_id (n_primaryLanguage n) e = (pl, e1)"
    by (cases "get_or_create_language_id (n_primaryLanguage n) e")
  then have p1: "same_tables e e1"
    using language_same_tables [of e "n_primaryLanguage n"] by simp
  obtain r2 e2 where t: "intern_topics (filter (\<lambda>t. t \<noteq> []) (n_repositoryTopics n)) e1 = (r2, e2)"
    by (cases "intern_topics (filter (\<lambda>t. t \<noteq> []) (n_repositoryTopics n)) e1")
  then have p2: "same_tables e e2"
    using intern_topics_same_tables [of e1 "filter (\<lambda>t. t \<noteq> []) (n_repositoryTopics n)"]
      same_tables_trans [OF p1] by simp
  obtain r3 e3 where d: "diff_nodes run ex ns e2 = (r3, e3)"
    by (cases "diff_nodes run ex ns e2")
  then have p3: "same_tables e e3"
    using Cons.IH [of e2] same_tables_trans [OF p2] by simp
  show ?case using l t d p2 p3
    by (simp add: Let_def split: sum.splits)
qed

lemma begin_run_tables:
  "repo (conn (snd (begin_run now e))) = repo (conn e)
   \<and> repo_latest (conn (snd (begin_run now e))) = repo_latest (conn e)
   \<and> repo_metrics_hist (conn (snd (begin_run now e))) = repo_metrics_hist (conn e)
   \<and> repo_topic_latest (conn (snd (begin_run now e))) = repo_topic_latest (conn e)"
  by (simp add: begin_run_def Let_def split: option.splits)

subsection \<open>The plan the diff loop builds\<close>

lemma diff_nodes_plan:
  "diff_nodes run ex ns e = (Inr p, e') \<Longrightarrow>
     hist_insert_rows p
       = map (new_hist_row run) (filter (\<lambda>n. opens_segment (ex (node_repo_id n)) n) ns)
   \<and> hist_extend_rows p
       = map (\<lambda>n. (run, node_repo_id n, history_start run (ex (node_repo_id n)) n))
           (filter (\<lambda>n. \<not> opens_segment (ex (node_repo_id n)) n) ns)
   \<and> list_all2 (\<lambda>row n. \<exists>pl. row = new_latest_row run (ex (node_repo_id n)) pl n)
       (latest_rows p) ns
   \<and> topic_repo_ids_to_refresh p = map node_repo_id ns
   \<and> fst ` set (topic_pairs_to_insert p) \<subseteq> node_repo_id ` set ns"
proof (induction ns arbitrary: e p e')
  case Nil
  then show ?case by auto
next
  case (Cons n ns)
  obtain pl e1 where l: "get_or_create_language_id (n_primaryLanguage n) e = (pl, e1)"
    by (cases "get_or_create_language_id (n_primaryLanguage n) e")
  obtain r2 e2 where t: "intern_topics (filter (\<lambda>t. t \<noteq> []) (n_repositoryTopics n)) e1 = (r2, e2)"
    by (cases "intern_topics (filter (\<lambda>t. t \<noteq> []) (n_repositoryTopics n)) e1")
  obtain r3 e3 where d: "diff_nodes run ex ns e2 = (r3, e3)"
    by (cases "diff_nodes run ex ns e2")
  from Cons.prems l t d obtain tids p3 where r2: "r2 = Inr tids" and r3: "r3 = Inr p3"
    by (cases r2; cases r3) (simp_all add: Let_def)
  from Cons.prems l t d r2 r3 have p: "p =
      \<lparr>latest_rows = new_latest_row run (ex (node_repo_id n)) pl n # latest_rows p3,
       hist_insert_rows = (if opens_segment (ex (node_repo_id n)) n then [new_hist_row run n] else [])
                               @ hist_insert_rows p3,
       hist_extend_rows = (if opens_segment (ex (node_repo_id n)) n then []
                           else [(run, node_repo_id n, history_start run (ex (node_repo_id n)) n)])
                               @ hist_extend_rows p3,
       topic_repo_ids_to_refresh = node_repo_id n # topic_repo_ids_to_refresh p3,
       topic_pairs_to_insert = map (\<lambda>tid. (node_repo_id n, tid)) tids @ topic_pairs_to_insert p3\<rparr>"
    by (simp add: Let_def)
  from Cons.IH [of e2 p3 e3] d r3 have ih:
    "hist_insert_rows p3
       = map (new_hist_row run) (filter (\<lambda>n. opens_segment (ex (node_repo_id n)) n) ns)"
    "hist_extend_rows p3
       = map (\<lambda>n. (run, node_repo_id n, history_start run (ex (node_repo_id n)) n))
           (filter (\<lambda>n. \<not> opens_segment (ex (node_repo_id n)) n) ns)"
    "list_all2 (\<lambda>row n. \<exists>pl. row = new_latest_row run (ex (node_repo_id n)) pl n)
       (latest_rows p3) ns"
    "topic_repo_ids_to_refresh p3 = map node_repo_id ns"
    "fst ` set (topic_pairs_to_insert p3) \<subseteq> node_repo_id ` set ns"
    by simp_all
  show ?case
    apply (simp only: p plan.simps)
    using ih by auto
qed

subsection \<open>The first transaction\<close>

lemma build_repo_rows_params:
  "build_repo_rows fs = Inr rows \<Longrightarrow>
     map (\<lambda>row. (fst (snd row), fst row)) rows = map (\<lambda>n. (node_name n, node_repo_id n)) fs
   \<and> map fst rows = map node_repo_id fs"
proof (induction fs arbitrary: rows)
  case Nil
  then show ?case by simp
next
  case (Cons n fs)
  from Cons.prems obtain v rest where v: "n_nameWithOwner n = Some v"
    and rest: "build_repo_rows fs = Inr rest"
    and rows: "rows = (node_repo_id n, sql_text v, n_createdAt n, n_description n, n_homepageUrl n) # rest"
    by (auto split: option.splits sum.splits)
  from Cons.IH [OF rest] show ?case by (simp add: rows node_name_def v)
qed

lemma fold_delete_conflict_latest:
  "fold (delete_conflict_latest rs) ps ls
     = filter (\<lambda>l. \<forall>p\<in>set ps. rl_repo_id l \<notin> set (conflict_ids rs p)) ls"
proof (induction ps arbitrary: ls)
  case Nil
  then show ?case by simp
next
  case (Cons p ps)
  have "fold (delete_conflict_latest rs) (p # ps) ls
          = filter (\<lambda>l. \<forall>q\<in>set ps. rl_repo_id l \<notin> set (conflict_ids rs q))
              (delete_conflict_latest rs p ls)"
    by (simp only: fold.simps comp_apply Cons.IH)
  also have "\<dots> = filter (\<lambda>l. \<forall>q\<in>set (p # ps). rl_repo_id l \<notin> set (conflict_ids rs q)) ls"
    by (auto simp: delete_conflict_latest_def intro: filter_cong)
  finally show ?case .
qed

lemma fold_delete_conflict_topics:
  "fold (delete_conflict_topics rs) ps ts
     = filter (\<lambda>t. \<forall>p\<in>set ps. fst t \<notin> set (conflict_ids rs p)) ts"
proof (induction ps arbitrary: ts)
  case Nil
  then show ?case by simp
next
  case (Cons p ps)
  have "fold (delete_conflict_topics rs) (p # ps) ts
          = filter (\<lambda>t. \<forall>q\<in>set ps. fst t \<notin> set (conflict_ids rs q))
              (delete_conflict_topics rs p ts)"
    by (simp only: fold.simps comp_apply Cons.IH)
  also have "\<dots> = filter (\<lambda>t. \<forall>q\<in>set (p # ps). fst t \<notin> set (conflict_ids rs q)) ts"
    by (auto simp: delete_conflict_topics_def intro: filter_cong)
  finally show ?case .
qed

lemma resolve_and_upsert_Inr:
  assumes "resolve_and_upsert rows d = Inr d3"
  shows "\<exists>rs. rename_conflicts (map (\<lambda>row. (fst (snd row), fst row)) rows) (repo d) = Inr rs
           \<and> upsert_repo_rows rows rs = Inr (repo d3)
           \<and> repo_latest d3
               = filter (\<lambda>l. \<forall>p\<in>set (map (\<lambda>row. (fst (snd row), fst row)) rows).
                               rl_repo_id l \<notin> set (conflict_ids (repo d) p)) (repo_latest d)
           \<and> repo_topic_latest d3
               = filter (\<lambda>t. \<forall>p\<in>set (map (\<lambda>row. (fst (snd row), fst row)) rows).
                               fst t \<notin> set (conflict_ids (repo d) p)) (repo_topic_latest d)
           \<and> repo_metrics_hist d3 = repo_metrics_hist d
           \<and> fetch_run d3 = fetch_run d"
  using assms
  unfolding resolve_and_upsert_def Let_def fold_delete_conflict_latest fold_delete_conflict_topics
  by (auto split: sum.splits)

subsection \<open>The second transaction\<close>

lemma insert_hist_rows_Inr: "insert_hist_rows rows hs = Inr hs' \<Longrightarrow> hs' = hs @ rows"
proof (induction rows arbitrary: hs)
  case Nil
  then show ?case by simp
next
  case (Cons row rows)
  from Cons.prems have "insert_hist_rows rows (hs @ [row]) = Inr hs'"
    by (auto simp: insert_hist_row_def split: if_splits)
  from Cons.IH [OF this] show ?case by simp
qed

lemma apply_plan_Inr:
  assumes "apply_plan p d = Inr d5"
  shows "repo d5 = repo d
       \<and> repo_latest d5 = fold upsert_latest_row (latest_rows p) (repo_latest d)
       \<and> repo_metrics_hist d5
           = fold extend_hist_row (hist_extend_rows p) (repo_metrics_hist d @ hist_insert_rows p)
       \<and> repo_topic_latest d5
           = fold insert_or_ignore_pair (topic_pairs_to_insert p)
               (filter (\<lambda>t. fst t \<notin> set (topic_repo_ids_to_refresh p)) (repo_topic_latest d))"
proof -
  from assms obtain hs where hs: "insert_hist_rows (hist_insert_rows p) (repo_metrics_hist d) = Inr hs"
    and d5: "d5 = d\<lparr>repo_latest := fold upsert_latest_row (latest_rows p) (repo_latest d),
                    repo_metrics_hist := fold extend_hist_row (hist_extend_rows p) hs,
                    repo_topic_latest := fold insert_or_ignore_pair (topic_pairs_to_insert p)
                       (filter (\<lambda>t. fst t \<notin> set (topic_repo_ids_to_refresh p)) (repo_topic_latest d))\<rparr>"
    by (auto simp: apply_plan_def Let_def split: sum.splits)
  from insert_hist_rows_Inr [OF hs] d5 show ?thesis by simp
qed

subsection \<open>A call that completes\<close>

lemma upsert_completed:
  assumes "upsert_from_github_nodes now nodes e = (None, e')"
    and "begin_run now e = (run, e1)"
    and "filter_fresh nodes (processed_repo_ids e1) = (fs, seen)"
    and "fs \<noteq> []"
  shows "\<exists>rows d3 p e4 d5.
           build_repo_rows fs = Inr rows
         \<and> resolve_and_upsert rows (conn e1) = Inr d3
         \<and> diff_nodes run (fetch_latest_metrics d3 (map fst rows)) fs
              (e1\<lparr>processed_repo_ids := seen, conn := d3\<rparr>) = (Inr p, e4)
         \<and> apply_plan p (conn e4) = Inr d5
         \<and> e' = e4\<lparr>conn := d5\<rparr>"
proof -
  note u = upsert_unfold [OF assms(2,3)]
  from assms(1,4) u obtain rows where rows: "build_repo_rows fs = Inr rows"
    by (cases "build_repo_rows fs") auto
  from assms(1,4) u rows obtain d3 where d3: "resolve_and_upsert rows (conn e1) = Inr d3"
    by (cases "resolve_and_upsert rows (conn e1)") auto
  obtain r4 e4 where dn: "diff_nodes run (fetch_latest_metrics d3 (map fst rows)) fs
              (e1\<lparr>processed_repo_ids := seen, conn := d3\<rparr>) = (r4, e4)"
    by (cases "diff_nodes run (fetch_latest_metrics d3 (map fst rows)) fs
              (e1\<lparr>processed_repo_ids := seen, conn := d3\<rparr>)")
  from assms(1,4) u rows d3 dn obtain p where p: "r4 = Inr p"
    by (cases r4) auto
  from assms(1,4) u rows d3 dn p obtain d5 where d5: "apply_plan p (conn e4) = Inr d5"
    and e': "e' = e4\<lparr>conn := d5\<rparr>"
    by (cases "apply_plan p (conn e4)") auto
  from rows d3 dn p d5 e' show ?thesis by blast
qed

subsection \<open>Consistency of \<^verbatim>\<open>repo_latest\<close> with the history\<close>

lemma latest_consistent_iff:
  "latest_consistent d
     \<longleftrightarrow> (\<forall>l\<in>set (repo_latest d). \<exists>h\<in>set (repo_metrics_hist d). matches l h)"
  by (simp add: latest_consistent_def list_all_iff list_ex_iff)

lemma latest_consistent_cong:
  "repo_latest d' = repo_latest d \<Longrightarrow> repo_metrics_hist d' = repo_metrics_hist d \<Longrightarrow>
     latest_consistent d' = latest_consistent d"
  by (simp add: latest_consistent_def)

lemma extend_keeps_match:
  assumes "\<exists>h\<in>set hs. matches l h"
  shows "\<exists>h\<in>set (extend_hist_row p hs). matches l h"
proof -
  from assms obtain h where h: "h \<in> set hs" "matches l h" by blast
  obtain run i st where p: "p = (run, i, st)" by (cases p)
  let ?f = "\<lambda>h. if h_repo_id h = i \<and> h_start_run_id h = st then h\<lparr>h_end_run_id := run\<rparr> else h"
  have "?f h \<in> set (extend_hist_row p hs)" using h(1) by (simp add: p extend_hist_row_def)
  moreover have "matches l (?f h)" using h(2) by (simp add: matches_def)
  ultimately show ?thesis by blast
qed

lemma fold_extend_keeps_match:
  "\<exists>h\<in>set hs. matches l h \<Longrightarrow> \<exists>h\<in>set (fold extend_hist_row ps hs). matches l h"
proof (induction ps arbitrary: hs)
  case Nil
  then show ?case by simp
next
  case (Cons p ps)
  from extend_keeps_match [OF Cons.prems, of p] Cons.IH show ?case by simp
qed

lemma upsert_latest_row_subset: "set (upsert_latest_row row ls) \<subseteq> insert row (set ls)"
  by (auto simp: upsert_latest_row_def)

lemma fold_upsert_latest_subset: "set (fold upsert_latest_row rows ls) \<subseteq> set ls \<union> set rows"
proof (induction rows arbitrary: ls)
  case Nil
  then show ?case by simp
next
  case (Cons row rows)
  from Cons.IH [of "upsert_latest_row row ls"] upsert_latest_row_subset [of row ls]
  show ?case by auto
qed

lemma fetch_latest_metrics_Some:
  "fetch_latest_metrics d ids i = Some ol \<Longrightarrow> ol \<in> set (repo_latest d) \<and> rl_repo_id ol = i"
  by (auto simp: fetch_latest_metrics_def find_Some_iff split: if_splits)

lemma list_all2_left:
  "list_all2 P xs ys \<Longrightarrow> x \<in> set xs \<Longrightarrow> \<exists>y\<in>set ys. P x y"
  by (induction rule: list_all2_induct) auto

lemma new_latest_row_opens:
  "opens_segment old n \<Longrightarrow> matches (new_latest_row run old pl n) (new_hist_row run n)"
  by (auto simp: opens_segment_def matches_def new_latest_row_def new_hist_row_def
      history_start_def split: option.splits)

lemma new_latest_row_continues:
  assumes "\<not> opens_segment old n"
  shows "\<exists>ol. old = Some ol \<and> \<not> changed ol n
          \<and> (rl_repo_id ol = node_repo_id n \<longrightarrow>
               (\<forall>h. matches ol h \<longrightarrow> matches (new_latest_row run old pl n) h))"
proof -
  from assms obtain ol where ol: "old = Some ol" "\<not> changed ol n"
    by (auto simp: opens_segment_def split: option.splits)
  then show ?thesis
    by (auto simp: matches_def new_latest_row_def history_start_def changed_def)
qed

lemma apply_plan_consistent:
  assumes cons: "latest_consistent d3"
    and tabs: "repo_latest d4 = repo_latest d3" "repo_metrics_hist d4 = repo_metrics_hist d3"
    and plan: "diff_nodes run (fetch_latest_metrics d3 ids) fs e3 = (Inr p, e4)"
    and ap: "apply_plan p d4 = Inr d5"
  shows "latest_consistent d5"
proof -
  note pl = diff_nodes_plan [OF plan]
  note a5 = apply_plan_Inr [OF ap]
  let ?ex = "fetch_latest_metrics d3 ids"
  let ?hs = "repo_metrics_hist d4 @ hist_insert_rows p"
  have keep: "\<And>l. \<exists>h\<in>set ?hs. matches l h \<Longrightarrow> \<exists>h\<in>set (repo_metrics_hist d5). matches l h"
    using fold_extend_keeps_match a5 by simp
  have "\<exists>h\<in>set (repo_metrics_hist d5). matches l h" if l: "l \<in> set (repo_latest d5)" for l
  proof -
    from l a5 fold_upsert_latest_subset [of "latest_rows p" "repo_latest d4"]
    consider "l \<in> set (repo_latest d4)" | "l \<in> set (latest_rows p)" by auto
    then show ?thesis
    proof cases
      case 1
      with cons tabs have "\<exists>h\<in>set (repo_metrics_hist d4). matches l h"
        by (simp add: latest_consistent_iff)
      then have "\<exists>h\<in>set ?hs. matches l h" by auto
      then show ?thesis by (rule keep)
    next
      case 2
      from pl have "list_all2 (\<lambda>row n. \<exists>pl. row = new_latest_row run (?ex (node_repo_id n)) pl n)
          (latest_rows p) fs" by simp
      from list_all2_left [OF this 2] obtain n pli where n: "n \<in> set fs"
        and lrow: "l = new_latest_row run (?ex (node_repo_id n)) pli n" by blast
      show ?thesis
      proof (cases "opens_segment (?ex (node_repo_id n)) n")
        case True
        with n pl have "new_hist_row run n \<in> set (hist_insert_rows p)" by simp
        moreover have "matches l (new_hist_row run n)"
          unfolding lrow by (rule new_latest_row_opens [OF True])
        ultimately have "\<exists>h\<in>set ?hs. matches l h" by auto
        then show ?thesis by (rule keep)
      next
        case False
        from new_latest_row_continues [OF False, of run pli] obtain ol where
          ol: "?ex (node_repo_id n) = Some ol"
          and tr: "rl_repo_id ol = node_repo_id n \<longrightarrow> (\<forall>h. matches ol h \<longrightarrow> matches l h)"
          unfolding lrow by blast
        from fetch_latest_metrics_Some [OF ol] have olin: "ol \<in> set (repo_latest d3)"
          and olid: "rl_repo_id ol = node_repo_id n" by simp_all
        from cons olin obtain h where h: "h \<in> set (repo_metrics_hist d3)" "matches ol h"
          by (auto simp: latest_consistent_iff)
        with tr olid tabs have "\<exists>h\<in>set ?hs. matches l h" by auto
        then show ?thesis by (rule keep)
      qed
    qed
  qed
  then show ?thesis by (simp add: latest_consistent_iff)
qed

lemma resolve_and_upsert_consistent:
  assumes "latest_consistent d" and "resolve_and_upsert rows d = Inr d3"
  shows "latest_consistent d3"
proof -
  from resolve_and_upsert_Inr [OF assms(2)] have
    "set (repo_latest d3) \<subseteq> set (repo_latest d)" "repo_metrics_hist d3 = repo_metrics_hist d"
    by auto
  with assms(1) show ?thesis by (auto simp: latest_consistent_iff)
qed

text \<open>
  Claim C7: if every \<^verbatim>\<open>repo_latest\<close> row has a history segment of the same repo that
  starts at the row's \<^verbatim>\<open>history_start_run_id\<close> and carries the row's metric quadruple,
  then the same holds after a call of \<^verbatim>\<open>upsert_from_github_nodes\<close> on any batch,
  whether the call completes or raises. The empty database has no \<^verbatim>\<open>repo_latest\<close> row,
  so the property holds after every call of every pass.
\<close>

theorem latest_consistent_preserved:
  assumes "latest_consistent (conn e)"
  shows "latest_consistent (conn (snd (upsert_from_github_nodes now nodes e)))"
proof -
  obtain run e1 where b: "begin_run now e = (run, e1)" by (cases "begin_run now e")
  obtain fs seen where f: "filter_fresh nodes (processed_repo_ids e1) = (fs, seen)"
    by (cases "filter_fresh nodes (processed_repo_ids e1)")
  define e2 where "e2 = e1\<lparr>processed_repo_ids := seen\<rparr>"
  have c2: "latest_consistent (conn e2)"
    using begin_run_tables [of now e] b assms latest_consistent_cong [of "conn e1" "conn e"]
    by (simp add: e2_def)
  note u = upsert_unfold [OF b f, folded e2_def]
  show ?thesis
  proof (cases "fs = []")
    case True
    then show ?thesis by (simp add: u c2)
  next
    case False
    note nonempty = this
    show ?thesis
    proof (cases "build_repo_rows fs")
      case (Inl err)
      then show ?thesis by (simp add: u nonempty c2)
    next
      case (Inr rows)
      note rr = this
      show ?thesis
      proof (cases "resolve_and_upsert rows (conn e2)")
        case (Inl err)
        then show ?thesis by (simp add: u nonempty rr c2)
      next
        case (Inr d3)
        note d3 = this
        have c3: "latest_consistent d3" by (rule resolve_and_upsert_consistent [OF c2 d3])
        obtain r4 e4 where dn: "diff_nodes run (fetch_latest_metrics d3 (map fst rows)) fs
                             (e2\<lparr>conn := d3\<rparr>) = (r4, e4)"
          by (cases "diff_nodes run (fetch_latest_metrics d3 (map fst rows)) fs
                             (e2\<lparr>conn := d3\<rparr>)")
        have t4: "repo_latest (conn e4) = repo_latest d3"
          "repo_metrics_hist (conn e4) = repo_metrics_hist d3"
          using diff_nodes_same_tables [of "e2\<lparr>conn := d3\<rparr>" run
                  "fetch_latest_metrics d3 (map fst rows)" fs] dn
          by (simp_all add: same_tables_def)
        have c4: "latest_consistent (conn e4)"
          using c3 latest_consistent_cong [OF t4] by simp
        show ?thesis
        proof (cases r4)
          case (Inl err)
          then show ?thesis by (simp add: u nonempty rr d3 dn c4)
        next
          case (Inr p)
          note p = this
          show ?thesis
          proof (cases "apply_plan p (conn e4)")
            case (Inl err)
            then show ?thesis by (simp add: u nonempty rr d3 dn p c4)
          next
            case (Inr d5)
            have "latest_consistent d5"
              by (rule apply_plan_consistent [OF c3 t4 dn [unfolded p] Inr])
            then show ?thesis by (simp add: u nonempty rr d3 dn p Inr)
          qed
        qed
      qed
    qed
  qed
qed

text \<open>
  A second pass that brings a changed snapshot for a repo ingested in the first pass: the
  database is consistent before and after it.
\<close>

theorem latest_consistent_preserved_witness:
  "latest_consistent (conn (reopen s1_engine))
   \<and> latest_consistent
       (conn (snd (upsert_from_github_nodes 86400
                     [snapshot (Some (JInt 2)) (Some (JStr ''a/x'')) 25] (reopen s1_engine))))
   \<and> map rl_stars
       (repo_latest (conn (snd (upsert_from_github_nodes 86400
                     [snapshot (Some (JInt 2)) (Some (JStr ''a/x'')) 25] (reopen s1_engine)))))
       = [25]"
proof -
  have h: "latest_consistent (conn (reopen s1_engine))" by code_simp
  have v: "map rl_stars
       (repo_latest (conn (snd (upsert_from_github_nodes 86400
                     [snapshot (Some (JInt 2)) (Some (JStr ''a/x'')) 25] (reopen s1_engine)))))
       = [25]" by code_simp
  from latest_consistent_preserved [OF h, of 86400
      "[snapshot (Some (JInt 2)) (Some (JStr ''a/x'')) 25]"] h v
  show ?thesis by blast
qed

subsection \<open>The rows of one repo\<close>


lemma extend_hist_row_filter:
  "filter (\<lambda>h. h_repo_id h = i) (extend_hist_row (run, k, st) hs)
     = (if k = i then extended st run (filter (\<lambda>h. h_repo_id h = i) hs)
        else filter (\<lambda>h. h_repo_id h = i) hs)"
  by (induction hs) (auto simp: extend_hist_row_def extended_def)

lemma fold_extend_other:
  "\<forall>p\<in>set ps. fst (snd p) \<noteq> i \<Longrightarrow>
     filter (\<lambda>h. h_repo_id h = i) (fold extend_hist_row ps hs) = filter (\<lambda>h. h_repo_id h = i) hs"
proof (induction ps arbitrary: hs)
  case Nil
  then show ?case by simp
next
  case (Cons p ps)
  obtain run k st where p: "p = (run, k, st)" by (cases p)
  from Cons.prems p have k: "k \<noteq> i" by simp
  from Cons.prems have "filter (\<lambda>h. h_repo_id h = i) (fold extend_hist_row ps (extend_hist_row p hs))
                      = filter (\<lambda>h. h_repo_id h = i) (extend_hist_row p hs)"
    by (intro Cons.IH) simp
  then show ?case using k by (simp add: p extend_hist_row_filter)
qed


lemma new_hist_row_repo_id: "h_repo_id (new_hist_row run n) = node_repo_id n"
  by (simp add: new_hist_row_def)


lemma replace_latest_other:
  "rl_repo_id r \<noteq> i \<Longrightarrow>
     filter (\<lambda>l. rl_repo_id l = i) (map (\<lambda>l. if rl_repo_id l = rl_repo_id r then r else l) ls)
       = filter (\<lambda>l. rl_repo_id l = i) ls"
  by (induction ls) auto

lemma upsert_latest_row_other:
  "rl_repo_id r \<noteq> i \<Longrightarrow>
     filter (\<lambda>l. rl_repo_id l = i) (upsert_latest_row r ls) = filter (\<lambda>l. rl_repo_id l = i) ls"
  by (simp add: upsert_latest_row_def replace_latest_other)


lemma fold_upsert_latest_other:
  "i \<notin> rl_repo_id ` set rows \<Longrightarrow>
     filter (\<lambda>l. rl_repo_id l = i) (fold upsert_latest_row rows ls) = filter (\<lambda>l. rl_repo_id l = i) ls"
proof (induction rows arbitrary: ls)
  case Nil
  then show ?case by simp
next
  case (Cons r rows)
  then show ?case by (simp add: upsert_latest_row_other)
qed



lemma plan_latest_ids:
  "list_all2 (\<lambda>row n. \<exists>pl. row = new_latest_row run (ex (node_repo_id n)) pl n) rows fs
     \<Longrightarrow> map rl_repo_id rows = map node_repo_id fs"
  by (induction rule: list_all2_induct) (auto simp: new_latest_row_def)


subsection \<open>Change or extension\<close>

lemma conflict_ids_iff:
  "i \<in> set (conflict_ids rs p)
     \<longleftrightarrow> (\<exists>row\<in>set rs. fst p = Some (r_name_with_owner row) \<and> r_id row \<noteq> snd p \<and> r_id row = i)"
  by (cases "fst p") (auto simp: conflict_ids_def)




subsection \<open>Name conflicts\<close>

lemma renamed_id [simp]: "r_id (renamed r) = r_id r"
  by (simp add: renamed_def)

lemma renamed_name:
  "r_name_with_owner (renamed r) = r_name_with_owner r @ ''-renamed-'' @ show_int (r_id r)"
  by (simp add: renamed_def)

lemma filter_id_map_rename:
  "filter (\<lambda>r. r_id r = j) (map (\<lambda>r. if hit r then renamed r else r) rs)
     = map (\<lambda>r. if hit r then renamed r else r) (filter (\<lambda>r. r_id r = j) rs)"
  by (induction rs) auto

lemma rename_conflict_filter:
  assumes "rename_conflict p rs = Inr rs'"
  shows "filter (\<lambda>r. r_id r = j) rs'
       = map (\<lambda>r. if fst p = Some (r_name_with_owner r) \<and> r_id r \<noteq> snd p then renamed r else r)
           (filter (\<lambda>r. r_id r = j) rs)"
proof (cases "fst p")
  case None
  with assms show ?thesis by (simp add: rename_conflict_def)
next
  case (Some nm)
  with assms have rs': "rs' = map (\<lambda>r. if r_name_with_owner r = nm \<and> r_id r \<noteq> snd p
                                       then renamed r else r) rs"
    by (simp add: rename_conflict_def Let_def split: if_splits)
  have eq: "(\<lambda>r. if fst p = Some (r_name_with_owner r) \<and> r_id r \<noteq> snd p then renamed r else r)
          = (\<lambda>r. if r_name_with_owner r = nm \<and> r_id r \<noteq> snd p then renamed r else r)"
    using Some by auto
  show ?thesis unfolding rs' eq by (rule filter_id_map_rename)
qed

lemma rename_conflicts_untouched:
  "rename_conflicts ps rs = Inr rs' \<Longrightarrow> filter (\<lambda>r. r_id r = j) rs = [ro] \<Longrightarrow>
   \<forall>p\<in>set ps. fst p \<noteq> Some (r_name_with_owner ro) \<Longrightarrow>
     filter (\<lambda>r. r_id r = j) rs' = [ro]"
proof (induction ps arbitrary: rs)
  case Nil
  then show ?case by simp
next
  case (Cons p ps)
  from Cons.prems(1) obtain rs1 where r1: "rename_conflict p rs = Inr rs1"
    and rest: "rename_conflicts ps rs1 = Inr rs'"
    by (auto split: sum.splits)
  from rename_conflict_filter [OF r1, of j] Cons.prems(2,3)
  have "filter (\<lambda>r. r_id r = j) rs1 = [ro]" by simp
  from Cons.IH [OF rest this] Cons.prems(3) show ?case by simp
qed

lemma rename_conflicts_renamed:
  "rename_conflicts ps rs = Inr rs' \<Longrightarrow> filter (\<lambda>r. r_id r = r_id old) rs = [old] \<Longrightarrow>
   \<forall>p\<in>set ps. snd p \<noteq> r_id old \<Longrightarrow>
   \<forall>p\<in>set ps. fst p \<noteq> Some (r_name_with_owner (renamed old)) \<Longrightarrow>
   \<exists>p\<in>set ps. fst p = Some (r_name_with_owner old) \<Longrightarrow>
     filter (\<lambda>r. r_id r = r_id old) rs' = [renamed old]"
proof (induction ps arbitrary: rs)
  case Nil
  then show ?case by simp
next
  case (Cons p ps)
  from Cons.prems(1) obtain rs1 where r1: "rename_conflict p rs = Inr rs1"
    and rest: "rename_conflicts ps rs1 = Inr rs'"
    by (auto split: sum.splits)
  note f1 = rename_conflict_filter [OF r1, of "r_id old", unfolded Cons.prems(2)]
  show ?case
  proof (cases "fst p = Some (r_name_with_owner old)")
    case True
    with f1 Cons.prems(3) have "filter (\<lambda>r. r_id r = r_id old) rs1 = [renamed old]" by simp
    from rename_conflicts_untouched [OF rest this] Cons.prems(4) show ?thesis by simp
  next
    case False
    with f1 have a: "filter (\<lambda>r. r_id r = r_id old) rs1 = [old]" by simp
    from False Cons.prems(5) have b: "\<exists>p\<in>set ps. fst p = Some (r_name_with_owner old)" by auto
    from Cons.IH [OF rest a _ _ b] Cons.prems(3,4) show ?thesis by simp
  qed
qed

lemma upsert_repo_row_other:
  assumes "upsert_repo_row p rs = Inr rs'" and "fst p \<noteq> j"
  shows "filter (\<lambda>r. r_id r = j) rs' = filter (\<lambda>r. r_id r = j) rs"
proof -
  obtain i nmo created descr home where p: "p = (i, nmo, created, descr, home)"
    by (cases p)
  from assms(1) p obtain nm where nm: "nmo = Some nm"
    by (cases nmo) (simp_all add: upsert_repo_row_def)
  have m: "filter (\<lambda>r. r_id r = j)
             (map (\<lambda>r. if r_id r = i
                        then r\<lparr>r_name_with_owner := nm, r_description := descr,
                               r_homepage_url := home\<rparr>
                        else r) rs) = filter (\<lambda>r. r_id r = j) rs"
    using assms(2) p by (induction rs) auto
  from assms p nm m show ?thesis
    by (auto simp: upsert_repo_row_def split: if_splits)
qed

lemma upsert_repo_rows_other:
  "upsert_repo_rows ps rs = Inr rs' \<Longrightarrow> j \<notin> fst ` set ps \<Longrightarrow>
     filter (\<lambda>r. r_id r = j) rs' = filter (\<lambda>r. r_id r = j) rs"
proof (induction ps arbitrary: rs)
  case Nil
  then show ?case by simp
next
  case (Cons p ps)
  from Cons.prems(1) obtain rs1 where r1: "upsert_repo_row p rs = Inr rs1"
    and rest: "upsert_repo_rows ps rs1 = Inr rs'"
    by (auto split: sum.splits)
  from Cons.prems(2) have "fst p \<noteq> j" "j \<notin> fst ` set ps" by auto
  with upsert_repo_row_other [OF r1] Cons.IH [OF rest] show ?case by simp
qed

lemma fold_insert_or_ignore_subset:
  "set (fold insert_or_ignore_pair ps ts) \<subseteq> set ts \<union> set ps"
proof (induction ps arbitrary: ts)
  case Nil
  then show ?case by simp
next
  case (Cons p ps)
  have "set (insert_or_ignore_pair p ts) \<subseteq> insert p (set ts)"
    by (auto simp: insert_or_ignore_pair_def)
  with Cons.IH [of "insert_or_ignore_pair p ts"] show ?case by auto
qed

text \<open>
  Claim C1, as the code has it. Take a call of \<^verbatim>\<open>upsert_from_github_nodes\<close> that
  completes, a fresh snapshot \<open>m\<close> of its batch and the repo row \<open>old\<close> that holds the
  snapshot's name under another id, where that id is not itself among the batch's fresh
  snapshots and no fresh snapshot is named like the renamed row. Afterwards the row is
  still there, its name being the old name followed by \<^verbatim>\<open>-renamed-\<close> and the row's own
  id (the \<^verbatim>\<open>id\<close> column of the SET clause, not the id of the incoming snapshot); the repo
  has no \<^verbatim>\<open>repo_latest\<close> row and no \<^verbatim>\<open>repo_topic_latest\<close> row; and its
  \<^verbatim>\<open>repo_metrics_hist\<close> rows are exactly the ones it had.
\<close>

theorem rename_conflict_resolution:
  assumes ok: "upsert_from_github_nodes now nodes e = (None, e')"
    and fresh: "filter_fresh nodes (processed_repo_ids e) = (fs, seen)"
    and m: "m \<in> set fs"
    and nm: "node_name m = Some (r_name_with_owner old)"
    and old: "filter (\<lambda>r. r_id r = r_id old) (repo (conn e)) = [old]"
    and notin: "r_id old \<notin> node_repo_id ` set fs"
    and nore: "\<forall>k\<in>set fs. node_name k
                 \<noteq> Some (r_name_with_owner old @ ''-renamed-'' @ show_int (r_id old))"
  shows "filter (\<lambda>r. r_id r = r_id old) (repo (conn e'))
           = [old\<lparr>r_name_with_owner :=
                    r_name_with_owner old @ ''-renamed-'' @ show_int (r_id old)\<rparr>]
       \<and> \<not> list_ex (\<lambda>l. rl_repo_id l = r_id old) (repo_latest (conn e'))
       \<and> \<not> list_ex (\<lambda>t. fst t = r_id old) (repo_topic_latest (conn e'))
       \<and> segments_of (conn e') (r_id old) = segments_of (conn e) (r_id old)"
proof -
  let ?j = "r_id old"
  obtain run e1 where b: "begin_run now e = (run, e1)" by (cases "begin_run now e")
  have f: "filter_fresh nodes (processed_repo_ids e1) = (fs, seen)"
    using fresh begin_run_processed [of now e] b by simp
  from m have ne: "fs \<noteq> []" by auto
  from upsert_completed [OF ok b f ne] obtain rows d3 p e4 d5 where
    rows: "build_repo_rows fs = Inr rows"
    and d3: "resolve_and_upsert rows (conn e1) = Inr d3"
    and dn: "diff_nodes run (fetch_latest_metrics d3 (map fst rows)) fs
              (e1\<lparr>processed_repo_ids := seen, conn := d3\<rparr>) = (Inr p, e4)"
    and ap: "apply_plan p (conn e4) = Inr d5"
    and e': "e' = e4\<lparr>conn := d5\<rparr>"
    by blast
  let ?ex = "fetch_latest_metrics d3 (map fst rows)"
  let ?params = "map (\<lambda>row. (fst (snd row), fst row)) rows"
  note t1 = begin_run_tables [of now e, unfolded b snd_conv]
  note bp = build_repo_rows_params [OF rows]
  from bp have params: "?params = map (\<lambda>n. (node_name n, node_repo_id n)) fs" by simp
  from resolve_and_upsert_Inr [OF d3] obtain rs where
    rc: "rename_conflicts ?params (repo (conn e1)) = Inr rs"
    and ur: "upsert_repo_rows rows rs = Inr (repo d3)"
    and l3: "repo_latest d3
           = filter (\<lambda>l. \<forall>q\<in>set ?params. rl_repo_id l \<notin> set (conflict_ids (repo (conn e1)) q))
               (repo_latest (conn e1))"
    and tp3: "repo_topic_latest d3
           = filter (\<lambda>t. \<forall>q\<in>set ?params. fst t \<notin> set (conflict_ids (repo (conn e1)) q))
               (repo_topic_latest (conn e1))"
    and h3: "repo_metrics_hist d3 = repo_metrics_hist (conn e1)"
    by blast
  have t4: "repo (conn e4) = repo d3" "repo_latest (conn e4) = repo_latest d3"
    "repo_metrics_hist (conn e4) = repo_metrics_hist d3"
    "repo_topic_latest (conn e4) = repo_topic_latest d3"
    using diff_nodes_same_tables [of "e1\<lparr>processed_repo_ids := seen, conn := d3\<rparr>" run ?ex fs] dn
    by (simp_all add: same_tables_def)
  note pl = diff_nodes_plan [OF dn]
  note a5 = apply_plan_Inr [OF ap]
  have c5: "conn e' = d5" by (simp add: e')
  have oldin: "old \<in> set (repo (conn e))"
  proof -
    have "old \<in> set (filter (\<lambda>r. r_id r = ?j) (repo (conn e)))" by (simp add: old)
    then show ?thesis by simp
  qed
  have nj: "\<forall>k\<in>set fs. node_repo_id k \<noteq> ?j" using notin by (metis imageI)
  have mj: "node_repo_id m \<noteq> ?j" using m nj by blast
  \<comment> \<open>the losing id is a conflict of the snapshot's pair\<close>
  have conf: "\<exists>q\<in>set ?params. ?j \<in> set (conflict_ids (repo (conn e1)) q)"
  proof -
    have "(node_name m, node_repo_id m) \<in> set ?params" using m params by auto
    moreover have "?j \<in> set (conflict_ids (repo (conn e1)) (node_name m, node_repo_id m))"
      using oldin nm mj t1 by (auto simp: conflict_ids_iff)
    ultimately show ?thesis by blast
  qed
  define C where "C = (\<lambda>i. \<exists>q\<in>set ?params. i \<in> set (conflict_ids (repo (conn e1)) q))"
  have Cj: "C ?j" using conf by (simp only: C_def)
  have l3c: "repo_latest d3 = filter (\<lambda>l. \<not> C (rl_repo_id l)) (repo_latest (conn e1))"
    unfolding l3 C_def by (rule filter_cong) auto
  have tp3c: "repo_topic_latest d3 = filter (\<lambda>t. \<not> C (fst t)) (repo_topic_latest (conn e1))"
    unfolding tp3 C_def by (rule filter_cong) auto
  \<comment> \<open>the repo row\<close>
  have A: "filter (\<lambda>r. r_id r = ?j) (repo d5) = [renamed old]"
  proof -
    have p1: "\<forall>q\<in>set ?params. snd q \<noteq> ?j" using nj params by auto
    have p2: "\<forall>q\<in>set ?params. fst q \<noteq> Some (r_name_with_owner (renamed old))"
      using nore params by (auto simp: renamed_name)
    have p3: "\<exists>q\<in>set ?params. fst q = Some (r_name_with_owner old)"
      using m nm params by force
    have o1: "filter (\<lambda>r. r_id r = ?j) (repo (conn e1)) = [old]" using old t1 by simp
    from rename_conflicts_renamed [OF rc o1 p1 p2 p3]
    have r1: "filter (\<lambda>r. r_id r = ?j) rs = [renamed old]" .
    have "?j \<notin> fst ` set rows" using notin bp by (metis (no_types) list.set_map)
    from upsert_repo_rows_other [OF ur this] r1
    have "filter (\<lambda>r. r_id r = ?j) (repo d3) = [renamed old]" by simp
    then show ?thesis using a5 t4 by simp
  qed
  \<comment> \<open>its \<^verbatim>\<open>repo_latest\<close> rows\<close>
  have B: "\<not> list_ex (\<lambda>l. rl_repo_id l = ?j) (repo_latest d5)"
  proof -
    have "filter (\<lambda>l. rl_repo_id l = ?j) (repo_latest d3) = []"
      unfolding l3c using Cj by (auto simp: filter_empty_conv)
    moreover have "?j \<notin> rl_repo_id ` set (latest_rows p)"
    proof -
      from pl have "list_all2 (\<lambda>row n. \<exists>pl. row = new_latest_row run (?ex (node_repo_id n)) pl n)
                      (latest_rows p) fs" by simp
      from plan_latest_ids [OF this] have "map rl_repo_id (latest_rows p) = map node_repo_id fs" .
      then have "rl_repo_id ` set (latest_rows p) = node_repo_id ` set fs"
        by (metis list.set_map)
      with notin show ?thesis by simp
    qed
    ultimately have "filter (\<lambda>l. rl_repo_id l = ?j) (repo_latest d5) = []"
      using fold_upsert_latest_other [of ?j "latest_rows p" "repo_latest (conn e4)"] a5 t4 by simp
    then show ?thesis by (auto simp: list_ex_iff filter_empty_conv)
  qed
  \<comment> \<open>its topic links\<close>
  have C: "\<not> list_ex (\<lambda>t. fst t = ?j) (repo_topic_latest d5)"
  proof -
    have "\<forall>t\<in>set (repo_topic_latest d3). fst t \<noteq> ?j"
      unfolding tp3c using Cj by auto
    moreover have "\<forall>t\<in>set (topic_pairs_to_insert p). fst t \<noteq> ?j"
    proof
      fix t assume "t \<in> set (topic_pairs_to_insert p)"
      then have "fst t \<in> fst ` set (topic_pairs_to_insert p)" by (rule imageI)
      with pl have "fst t \<in> node_repo_id ` set fs" by blast
      with notin show "fst t \<noteq> ?j" by metis
    qed
    moreover have "set (repo_topic_latest d5)
        \<subseteq> set (repo_topic_latest (conn e4)) \<union> set (topic_pairs_to_insert p)"
    proof -
      have "repo_topic_latest d5
              = fold insert_or_ignore_pair (topic_pairs_to_insert p)
                  (filter (\<lambda>t. fst t \<notin> set (topic_repo_ids_to_refresh p))
                     (repo_topic_latest (conn e4)))"
        using a5 by blast
      then have "set (repo_topic_latest d5)
              \<subseteq> set (filter (\<lambda>t. fst t \<notin> set (topic_repo_ids_to_refresh p))
                       (repo_topic_latest (conn e4)))
                \<union> set (topic_pairs_to_insert p)"
        by (simp only: fold_insert_or_ignore_subset)
      also have "\<dots> \<subseteq> set (repo_topic_latest (conn e4)) \<union> set (topic_pairs_to_insert p)"
        by auto
      finally show ?thesis .
    qed
    ultimately have "\<forall>t\<in>set (repo_topic_latest d5). fst t \<noteq> ?j"
      using t4 by auto
    then show ?thesis by (simp add: list_ex_iff)
  qed
  \<comment> \<open>its history\<close>
  have D: "segments_of d5 ?j = segments_of (conn e) ?j"
  proof -
    have ext: "\<forall>q\<in>set (hist_extend_rows p). fst (snd q) \<noteq> ?j"
      using pl nj by auto
    have ins: "filter (\<lambda>h. h_repo_id h = ?j) (hist_insert_rows p) = []"
      using pl nj by (auto simp: filter_empty_conv new_hist_row_repo_id)
    have "segments_of d5 ?j
            = filter (\<lambda>h. h_repo_id h = ?j) (repo_metrics_hist (conn e4) @ hist_insert_rows p)"
      unfolding segments_of_def using a5 fold_extend_other [OF ext] by simp
    also have "\<dots> = segments_of (conn e) ?j"
      using ins t4 h3 t1 by (simp add: segments_of_def)
    finally show ?thesis .
  qed
  have rn: "renamed old = old\<lparr>r_name_with_owner :=
                    r_name_with_owner old @ ''-renamed-'' @ show_int (r_id old)\<rparr>"
    by (simp add: renamed_def)
  from A B C D show ?thesis by (simp add: c5 rn)
qed

text \<open>
  The rename scenario: the database holds repo 7 named \<^verbatim>\<open>old/x\<close>, and a later pass
  ingests a snapshot with id 8 and the same name.
\<close>

theorem rename_conflict_resolution_witness:
  "upsert_from_github_nodes 86400 [s5_new] (reopen s5_engine) = (None, s5_after)
   \<and> filter_fresh [s5_new] (processed_repo_ids (reopen s5_engine)) = ([s5_new], {8})
   \<and> node_name s5_new = Some (r_name_with_owner s5_row)
   \<and> filter (\<lambda>r. r_id r = r_id s5_row) (repo (conn (reopen s5_engine))) = [s5_row]
   \<and> filter (\<lambda>r. r_id r = r_id s5_row) (repo (conn s5_after))
       = [s5_row\<lparr>r_name_with_owner :=
                    r_name_with_owner s5_row @ ''-renamed-'' @ show_int (r_id s5_row)\<rparr>]
   \<and> \<not> list_ex (\<lambda>l. rl_repo_id l = r_id s5_row) (repo_latest (conn s5_after))
   \<and> \<not> list_ex (\<lambda>t. fst t = r_id s5_row) (repo_topic_latest (conn s5_after))
   \<and> segments_of (conn s5_after) (r_id s5_row) = segments_of (conn (reopen s5_engine)) (r_id s5_row)
   \<and> length (segments_of (conn s5_after) (r_id s5_row)) = 1"
proof -
  have "fst (upsert_from_github_nodes 86400 [s5_new] (reopen s5_engine)) = None" by code_simp
  then have h1: "upsert_from_github_nodes 86400 [s5_new] (reopen s5_engine) = (None, s5_after)"
    unfolding s5_after_def by (metis prod.collapse)
  have h2: "filter_fresh [s5_new] (processed_repo_ids (reopen s5_engine)) = ([s5_new], {8})"
    by (simp add: reopen_def new_engine_def s5_new_def snapshot_def)
  have h3: "s5_new \<in> set [s5_new]" by simp
  have h4: "node_name s5_new = Some (r_name_with_owner s5_row)"
    by (simp add: node_name_def s5_new_def snapshot_def s5_row_def)
  have h5: "filter (\<lambda>r. r_id r = r_id s5_row) (repo (conn (reopen s5_engine))) = [s5_row]"
    by code_simp
  have h6: "r_id s5_row \<notin> node_repo_id ` set [s5_new]"
    by (simp add: s5_row_def s5_new_def snapshot_def node_repo_id_def)
  have h7: "\<forall>k\<in>set [s5_new]. node_name k
                 \<noteq> Some (r_name_with_owner s5_row @ ''-renamed-'' @ show_int (r_id s5_row))"
    by (simp add: node_name_def s5_new_def snapshot_def s5_row_def)
  have v: "length (segments_of (conn s5_after) (r_id s5_row)) = 1" by code_simp
  from rename_conflict_resolution [OF h1 h2 h3 h4 h5 h6 h7] h1 h2 h4 h5 v
  show ?thesis by blast
qed

text \<open>
  Claim C1 as stated fails on its own example: ingesting the snapshot (id 8, \<^verbatim>\<open>old/x\<close>)
  over repo 7 named \<^verbatim>\<open>old/x\<close> renames repo 7 to \<^verbatim>\<open>old/x-renamed-7\<close>, not to
  \<^verbatim>\<open>old/x-renamed-8\<close>.
\<close>

theorem renamed_suffix_counterexample:
  "map r_id (repo (conn (reopen s5_engine))) = [7]
   \<and> map r_name_with_owner (repo (conn (reopen s5_engine))) = [''old/x'']
   \<and> map r_id (repo (conn s5_after)) = [7, 8]
   \<and> map r_name_with_owner (repo (conn s5_after)) = [''old/x-renamed-7'', ''old/x'']"
  by code_simp

subsection \<open>A repo without a \<^verbatim>\<open>repo_latest\<close> row\<close>

lemma no_latest_joined:
  assumes "\<forall>r\<in>set (repo d). r_name_with_owner r = name \<longrightarrow> \<not> has_latest d (r_id r)"
  shows "filter (\<lambda>j. r_name_with_owner (snd j) = name)
           (List.map_filter (join_repo d) (repo_latest d)) = []"
proof -
  have "r_name_with_owner (snd j) \<noteq> name"
    if "j \<in> set (List.map_filter (join_repo d) (repo_latest d))" for j
  proof
    assume nm: "r_name_with_owner (snd j) = name"
    from joined_in [OF that] have "fst j \<in> set (repo_latest d)" "snd j \<in> set (repo d)"
      "r_id (snd j) = rl_repo_id (fst j)" by simp_all
    then have "has_latest d (r_id (snd j))" "snd j \<in> set (repo d)"
      by (auto simp: has_latest_def list_ex_iff)
    with assms nm show False by blast
  qed
  then show ?thesis by (simp add: filter_empty_conv)
qed

text \<open>
  Claim C10: when no repo row of the given name has a \<^verbatim>\<open>repo_latest\<close> row, whether or
  not such a repo row exists, \<^verbatim>\<open>get_repo_latest\<close> returns \<^verbatim>\<open>None\<close>, and
  \<^verbatim>\<open>GET /api/repo\<close> (the cache holding nothing for the name) answers 404.
\<close>

theorem repo_without_latest_not_found:
  assumes "\<forall>r\<in>set (repo d). r_name_with_owner r = name \<longrightarrow> \<not> has_latest d (r_id r)"
  shows "get_repo_latest d name = None
       \<and> (map_of (cache c) (''repo:'' @ name) = None
            \<longrightarrow> fst (api_repo_latest d name c) = HTTPException 404 ''Repo not found'')"
  by (simp add: get_repo_latest_def no_latest_joined [OF assms] api_repo_latest_def lru_get_def)

text \<open>
  The repo disassociated in the rename scenario: its row is there under the renamed name,
  its history is kept, and the lookup by the renamed name finds nothing.
\<close>

theorem repo_without_latest_not_found_witness:
  "has_repo (conn s5_after) ''old/x-renamed-7''
   \<and> length (segments_of (conn s5_after) 7) = 1
   \<and> get_repo_latest (conn s5_after) ''old/x-renamed-7'' = None
   \<and> map_of (cache response_cache) (''repo:'' @ ''old/x-renamed-7'') = None
   \<and> fst (api_repo_latest (conn s5_after) ''old/x-renamed-7'' response_cache)
       = HTTPException 404 ''Repo not found''"
proof -
  have h: "\<forall>r\<in>set (repo (conn s5_after)).
             r_name_with_owner r = ''old/x-renamed-7'' \<longrightarrow> \<not> has_latest (conn s5_after) (r_id r)"
    by code_simp
  have a: "has_repo (conn s5_after) ''old/x-renamed-7''" by code_simp
  have b: "length (segments_of (conn s5_after) 7) = 1" by code_simp
  have c: "map_of (cache response_cache) (''repo:'' @ ''old/x-renamed-7'') = None"
    by (simp add: response_cache_def)
  from repo_without_latest_not_found [OF h, of response_cache] a b c show ?thesis by blast
qed

subsection \<open>Positions in a sorted list\<close>

lemma sorted_nth_count:
  "sorted_wrt (<) (map key xs) \<Longrightarrow> i < length xs \<Longrightarrow>
     length (filter (\<lambda>y. key y < key (xs ! i)) xs) = i"
  for key :: "'a \<Rightarrow> 'k::linorder"
proof (induction xs arbitrary: i)
  case Nil
  then show ?case by simp
next
  case (Cons x xs)
  from Cons.prems(1) have lt: "\<forall>y\<in>set xs. key x < key y" and s: "sorted_wrt (<) (map key xs)"
    by auto
  show ?case
  proof (cases i)
    case 0
    from lt have "filter (\<lambda>y. key y < key x) xs = []"
      by (auto simp: filter_empty_conv)
    then show ?thesis using 0 by simp
  next
    case (Suc k)
    with Cons.prems(2) have k: "k < length xs" by simp
    then have "xs ! k \<in> set xs" by simp
    with lt have "key x < key (xs ! k)" by blast
    with Cons.IH [OF s k] Suc show ?thesis by simp
  qed
qed

lemma sort_key_position:
  fixes key :: "'a \<Rightarrow> 'k::linorder"
  assumes "distinct xs" and "inj_on key (set xs)" and "x \<in> set xs"
  shows "length (filter (\<lambda>y. key y < key x) xs) < length xs
       \<and> sort_key key xs ! length (filter (\<lambda>y. key y < key x) xs) = x"
proof -
  let ?S = "sort_key key xs"
  have d: "distinct (map key ?S)"
    using assms(1,2) by (simp add: distinct_map)
  have "sorted (map key ?S)" by (rule sorted_sort_key)
  with d have st: "sorted_wrt (<) (map key ?S)" by (simp add: strict_sorted_iff)
  from assms(3) have "x \<in> set ?S" by simp
  then obtain i where i: "i < length ?S" "?S ! i = x" unfolding in_set_conv_nth by blast
  from sorted_nth_count [OF st i(1)] i(2)
  have "length (filter (\<lambda>y. key y < key x) ?S) = i" by simp
  moreover have "length (filter (\<lambda>y. key y < key x) ?S) = length (filter (\<lambda>y. key y < key x) xs)"
    by (simp only: filter_sort length_sort)
  ultimately show ?thesis using i by simp
qed

subsection \<open>Pages\<close>

lemma pages_concat:
  "concat (map (\<lambda>k. take m (drop (k * m) xs)) [0..<n]) = take (n * m) xs"
proof (induction n)
  case 0
  then show ?case by simp
next
  case (Suc n)
  have "concat (map (\<lambda>k. take m (drop (k * m) xs)) [0..<Suc n])
          = concat (map (\<lambda>k. take m (drop (k * m) xs)) [0..<n]) @ take m (drop (n * m) xs)"
    by simp
  also have "\<dots> = take (n * m) xs @ take m (drop (n * m) xs)"
    by (simp only: Suc.IH)
  also have "\<dots> = take (n * m + m) xs"
    by (rule take_add [symmetric])
  also have "n * m + m = Suc n * m" by simp
  finally show ?case .
qed

lemma upto_from_one: "[1..int n] = map (\<lambda>k. int k + 1) [0..<n]"
proof (induction n)
  case 0
  then show ?case by simp
next
  case (Suc n)
  have le: "(1::int) \<le> int (Suc n)" by simp
  have e: "int (Suc n) - 1 = int n" by simp
  have "[1..int (Suc n)] = [1..int n] @ [int (Suc n)]"
    using upto_rec2 [OF le] unfolding e .
  also have "\<dots> = map (\<lambda>k. int k + 1) [0..<n] @ [int n + 1]"
    by (simp only: Suc.IH) simp
  also have "\<dots> = map (\<lambda>k. int k + 1) [0..<Suc n]" by simp
  finally show ?case .
qed

lemma find_unique:
  "r \<in> set xs \<Longrightarrow> P r \<Longrightarrow> \<forall>x\<in>set xs. P x \<longrightarrow> x = r \<Longrightarrow> find P xs = Some r"
proof (induction xs)
  case Nil
  then show ?case by simp
next
  case (Cons a xs)
  show ?case
  proof (cases "P a")
    case True
    with Cons.prems(3) have "a = r" by simp
    with True show ?thesis by simp
  next
    case False
    with Cons.prems(1,2) have "r \<in> set xs" by auto
    moreover from Cons.prems(3) have "\<forall>x\<in>set xs. P x \<longrightarrow> x = r" by simp
    ultimately have "find P xs = Some r" using Cons.IH Cons.prems(2) by blast
    with False show ?thesis by simp
  qed
qed

end
